theory Spec2Isabelle
  imports Main "HOL-Library.Multiset"
begin

section \<open>Region detection (CanvasStrategy / OpenCVStrategy)\<close>

text \<open>
  \<^verbatim>\<open>interface Region { x: number; y: number; width: number; height: number }\<close>
  (types/calendar.ts).  Coordinates are pixel positions, modelled as integers.
\<close>

record Region =
  reg_x :: int
  reg_y :: int
  reg_width :: int
  reg_height :: int

text \<open>\<^verbatim>\<open>regionsOverlap(r1, r2)\<close>: the closed-interval test on both axes.\<close>

definition regionsOverlap :: "Region \<Rightarrow> Region \<Rightarrow> bool" where
  "regionsOverlap r1 r2 =
     (\<not> (reg_x r1 + reg_width r1 < reg_x r2 \<or>
         reg_x r2 + reg_width r2 < reg_x r1 \<or>
         reg_y r1 + reg_height r1 < reg_y r2 \<or>
         reg_y r2 + reg_height r2 < reg_y r1))"

text \<open>\<^verbatim>\<open>mergeTwoRegions(r1, r2)\<close>: the union bounding box.\<close>

definition mergeTwoRegions :: "Region \<Rightarrow> Region \<Rightarrow> Region" where
  "mergeTwoRegions r1 r2 =
     (let minX = min (reg_x r1) (reg_x r2);
          minY = min (reg_y r1) (reg_y r2);
          maxX = max (reg_x r1 + reg_width r1) (reg_x r2 + reg_width r2);
          maxY = max (reg_y r1 + reg_height r1) (reg_y r2 + reg_height r2)
      in \<lparr>reg_x = minX, reg_y = minY, reg_width = maxX - minX, reg_height = maxY - minY\<rparr>)"

text \<open>
  One pass of the inner \<^verbatim>\<open>for (let j = 0; j < regions.length; j++)\<close> loop of
  \<^verbatim>\<open>mergeOverlappingRegions\<close>.  The state is \<open>(current, used, mergedNew)\<close>; the
  second argument is the list of indices \<open>j\<close> still to visit.
\<close>

fun mergePass :: "Region list \<Rightarrow> nat list \<Rightarrow> Region \<times> nat set \<times> bool \<Rightarrow> Region \<times> nat set \<times> bool" where
  "mergePass regions [] st = st"
| "mergePass regions (j # js) (current, used, mergedNew) =
     (if j \<in> used then mergePass regions js (current, used, mergedNew)
      else if regionsOverlap current (regions ! j)
           then mergePass regions js (mergeTwoRegions current (regions ! j), insert j used, True)
           else mergePass regions js (current, used, mergedNew))"

lemma mergePass_used_mono:
  "mergePass regions js (c, u, m) = (c', u', m') \<Longrightarrow> u \<subseteq> u' \<and> u' \<subseteq> u \<union> set js"
proof (induction js arbitrary: c u m)
  case Nil
  then show ?case by simp
next
  case (Cons j js)
  then show ?case
    by (fastforce split: if_splits)
qed

lemma mergePass_flag:
  "mergePass regions js (c, u, m) = (c', u', m') \<Longrightarrow> m' \<Longrightarrow> \<not> m \<Longrightarrow> \<exists>j \<in> set js. j \<notin> u \<and> j \<in> u'"
proof (induction js arbitrary: c u m)
  case Nil
  then show ?case by simp
next
  case (Cons j js)
  show ?case
  proof (cases "j \<in> u")
    case True
    with Cons.prems have "mergePass regions js (c, u, m) = (c', u', m')" by simp
    from Cons.IH[OF this Cons.prems(2,3)] show ?thesis by auto
  next
    case False
    show ?thesis
    proof (cases "regionsOverlap c (regions ! j)")
      case True
      with False Cons.prems
      have "mergePass regions js (mergeTwoRegions c (regions ! j), insert j u, True) = (c', u', m')"
        by simp
      from mergePass_used_mono[OF this] have "j \<in> u'" by auto
      with False show ?thesis by auto
    next
      case no: False
      with False Cons.prems have "mergePass regions js (c, u, m) = (c', u', m')" by simp
      from Cons.IH[OF this Cons.prems(2,3)] show ?thesis by auto
    qed
  qed
qed

lemma mergePass_card:
  assumes "mergePass regions [0..<length regions] (c, u, False) = (c', u', True)"
  shows "card ({0..<length regions} - u') < card ({0..<length regions} - u)"
proof -
  from mergePass_used_mono[OF assms] have sub: "u \<subseteq> u'" by simp
  from mergePass_flag[OF assms] obtain j where j: "j < length regions" "j \<notin> u" "j \<in> u'"
    by auto
  have "{0..<length regions} - u' \<subset> {0..<length regions} - u"
    using sub j by auto
  then show ?thesis
    by (intro psubset_card_mono) auto
qed

text \<open>
  The \<^verbatim>\<open>while (mergedNew)\<close> loop: passes are repeated as long as the last pass merged
  something.  Every pass that asks for another one has moved an index into \<open>used\<close>,
  which is the measure of the termination proof.
\<close>

function mergeWhile :: "Region list \<Rightarrow> Region \<Rightarrow> nat set \<Rightarrow> Region \<times> nat set" where
  "mergeWhile regions current used =
     (case mergePass regions [0..<length regions] (current, used, False) of
        (current', used', mergedNew) \<Rightarrow>
          if mergedNew then mergeWhile regions current' used' else (current', used'))"
  by pat_completeness auto
termination
  by (relation "measure (\<lambda>(regions, current, used). card ({0..<length regions} - used))")
     (auto dest!: sym[of "(_, _, True)"] intro: mergePass_card)

text \<open>The outer \<^verbatim>\<open>for (let i = 0; i < regions.length; i++)\<close> loop, state \<open>(merged, used)\<close>.\<close>

fun mergeOuter :: "Region list \<Rightarrow> nat list \<Rightarrow> Region list \<times> nat set \<Rightarrow> Region list \<times> nat set" where
  "mergeOuter regions [] st = st"
| "mergeOuter regions (i # is) (merged, used) =
     (if i \<in> used then mergeOuter regions is (merged, used)
      else case mergeWhile regions (regions ! i) (insert i used) of
             (current, used') \<Rightarrow> mergeOuter regions is (merged @ [current], used'))"

definition mergeOverlappingRegions :: "Region list \<Rightarrow> Region list" where
  "mergeOverlappingRegions regions =
     (if length regions = 0 then []
      else fst (mergeOuter regions [0..<length regions] ([], {})))"

text \<open>
  \<^verbatim>\<open>ImageData\<close>: \<^verbatim>\<open>{ width, height, data }\<close> with \<open>data\<close> the flat RGBA sample array.
  A read past the end of the array is \<^verbatim>\<open>undefined\<close> in the source, \<open>None\<close> here.
\<close>

record ImageData =
  img_width :: int
  img_height :: int
  img_data :: "int list"

definition sample :: "int list \<Rightarrow> int \<Rightarrow> int option" where
  "sample d i = (if 0 \<le> i \<and> i < int (length d) then Some (d ! nat i) else None)"

text \<open>
  \<^verbatim>\<open>isRed = (r, g, b) => r > 150 && g < 100 && b < 100\<close>; a comparison with
  \<^verbatim>\<open>undefined\<close> is false.
\<close>

fun isRed :: "int option \<Rightarrow> int option \<Rightarrow> int option \<Rightarrow> bool" where
  "isRed (Some r) (Some g) (Some b) = (r > 150 \<and> g < 100 \<and> b < 100)"
| "isRed _ _ _ = False"

text \<open>
  One iteration of the \<^verbatim>\<open>while (stack.length > 0)\<close> loop of \<^verbatim>\<open>findCluster\<close>.
  The stack is a list whose head is the top; the bounding box is
  \<open>(minX, maxX, minY, maxY)\<close>.  The four neighbours are pushed in the source's order,
  so \<open>(x, y + 1)\<close> ends on top.
\<close>

type_synonym bbox = "int \<times> int \<times> int \<times> int"

fun findClusterStep ::
  "int \<Rightarrow> int \<Rightarrow> int list \<Rightarrow> (int \<times> int) list \<times> int set \<times> bbox \<Rightarrow> (int \<times> int) list \<times> int set \<times> bbox" where
  "findClusterStep w h d ([], visited, bb) = ([], visited, bb)"
| "findClusterStep w h d ((px, py) # stack, visited, (minX, maxX, minY, maxY)) =
     (let idx = py * w + px in
      if idx \<in> visited \<or> px < 0 \<or> px \<ge> w \<or> py < 0 \<or> py \<ge> h
      then (stack, visited, (minX, maxX, minY, maxY))
      else let pixelIdx = idx * 4;
               r = sample d pixelIdx;
               g = sample d (pixelIdx + 1);
               b = sample d (pixelIdx + 2)
           in if \<not> isRed r g b then (stack, visited, (minX, maxX, minY, maxY))
              else ((px, py + 1) # (px, py - 1) # (px + 1, py) # (px - 1, py) # stack,
                    insert idx visited,
                    (min minX px, max maxX px, min minY py, max maxY py)))"

lemma pixel_index_in_range:
  fixes w h px py :: int
  assumes "0 \<le> px" "px < w" "0 \<le> py" "py < h"
  shows "0 \<le> py * w + px \<and> py * w + px < w * h"
proof -
  have w: "0 < w" using assms by linarith
  have "py * w \<le> (h - 1) * w"
    using assms w by (intro mult_right_mono) auto
  then have "py * w + px < (h - 1) * w + w" using assms by linarith
  also have "(h - 1) * w + w = w * h" by (simp add: algebra_simps)
  finally have up: "py * w + px < w * h" .
  have "0 \<le> py * w" using assms w by simp
  with assms up show ?thesis by simp
qed

lemma findClusterStep_progress:
  assumes "stack \<noteq> []"
    and "findClusterStep w h d (stack, visited, bb) = (stack', visited', bb')"
  shows "(\<exists>idx. 0 \<le> idx \<and> idx < w * h \<and> idx \<notin> visited \<and> visited' = insert idx visited)
       \<or> (visited' = visited \<and> length stack' < length stack)"
proof -
  from assms(1) obtain px py rest where st: "stack = (px, py) # rest"
    by (cases stack) auto
  obtain minX maxX minY maxY where bb: "bb = (minX, maxX, minY, maxY)"
    by (cases bb) auto
  show ?thesis
  proof (cases "py * w + px \<in> visited \<or> px < 0 \<or> px \<ge> w \<or> py < 0 \<or> py \<ge> h")
    case True
    with assms(2) st bb show ?thesis by (auto simp: Let_def)
  next
    case False
    then have rng: "0 \<le> py * w + px \<and> py * w + px < w * h"
      by (intro pixel_index_in_range) auto
    show ?thesis
    proof (cases "isRed (sample d ((py * w + px) * 4)) (sample d ((py * w + px) * 4 + 1))
                    (sample d ((py * w + px) * 4 + 2))")
      case True
      with False assms(2) st bb have "visited' = insert (py * w + px) visited"
        by (auto simp: Let_def)
      with False rng show ?thesis by blast
    next
      case nr: False
      with False assms(2) st bb show ?thesis by (auto simp: Let_def)
    qed
  qed
qed

lemma findClusterStep_measure:
  assumes "stack \<noteq> []"
    and "findClusterStep w h d (stack, visited, bb) = (stack', visited', bb')"
  shows "card ({0..<w * h} - visited') < card ({0..<w * h} - visited)
       \<or> (card ({0..<w * h} - visited') = card ({0..<w * h} - visited) \<and> length stack' < length stack)"
proof -
  from findClusterStep_progress[OF assms]
  consider idx where "0 \<le> idx" "idx < w * h" "idx \<notin> visited" "visited' = insert idx visited"
    | "visited' = visited" "length stack' < length stack"
    by blast
  then show ?thesis
  proof cases
    case 1
    have fin: "finite ({0..<w * h} - visited)" by simp
    have mem: "idx \<in> {0..<w * h} - visited" using 1(1-3) by simp
    have "{0..<w * h} - visited' = ({0..<w * h} - visited) - {idx}"
      unfolding 1(4) by blast
    then have "card ({0..<w * h} - visited') < card ({0..<w * h} - visited)"
      using card_Diff1_less[OF fin mem] by simp
    then show ?thesis by simp
  next
    case 2
    then show ?thesis by simp
  qed
qed

text \<open>The \<^verbatim>\<open>while (stack.length > 0)\<close> loop itself.\<close>

function findClusterLoop ::
  "int \<Rightarrow> int \<Rightarrow> int list \<Rightarrow> (int \<times> int) list \<Rightarrow> int set \<Rightarrow> bbox \<Rightarrow> int set \<times> bbox" where
  "findClusterLoop w h d stack visited bb =
     (if stack = [] then (visited, bb)
      else case findClusterStep w h d (stack, visited, bb) of
             (stack', visited', bb') \<Rightarrow> findClusterLoop w h d stack' visited' bb')"
  by pat_completeness auto
termination
proof (relation "(\<lambda>(w, h, d, stack, visited, bb). card ({0..<w * h} - visited))
                  <*mlex*> measure (\<lambda>(w, h, d, stack, visited, bb). length stack)",
       goal_cases)
  case 1
  show ?case by (simp add: wf_mlex)
next
  case (2 w h d stack visited bb stack' y visited' bb')
  have "findClusterStep w h d (stack, visited, bb) = (stack', visited', bb')"
    using 2(2)[symmetric] 2(3)[symmetric] by simp
  from findClusterStep_measure[OF 2(1) this] show ?case
    by (auto simp: mlex_prod_def)
qed

text \<open>
  \<^verbatim>\<open>findCluster(startX, startY)\<close>; the closure's \<open>visited\<close> set is passed in and
  returned.
\<close>

definition findCluster :: "int \<Rightarrow> int \<Rightarrow> int list \<Rightarrow> int \<Rightarrow> int \<Rightarrow> int set \<Rightarrow> Region \<times> int set" where
  "findCluster w h d startX startY visited =
     (case findClusterLoop w h d [(startX, startY)] visited (startX, startX, startY, startY) of
        (visited', (minX, maxX, minY, maxY)) \<Rightarrow>
          (\<lparr>reg_x = minX, reg_y = minY,
            reg_width = maxX - minX + 1, reg_height = maxY - minY + 1\<rparr>, visited'))"

text \<open>
  The scan \<^verbatim>\<open>for (y = 0; y < height; y += 2) for (x = 0; x < width; x += 2)\<close>,
  state \<open>(regions, visited)\<close>.
\<close>

function scanRow ::
  "int \<Rightarrow> int \<Rightarrow> int list \<Rightarrow> int \<Rightarrow> int \<Rightarrow> Region list \<times> int set \<Rightarrow> Region list \<times> int set" where
  "scanRow w h d sy sx (regions, visited) =
     (if sx < w then
        (let idx = (sy * w + sx) * 4;
             r = sample d idx;
             g = sample d (idx + 1);
             b = sample d (idx + 2)
         in if isRed r g b \<and> sy * w + sx \<notin> visited
            then case findCluster w h d sx sy visited of
                   (region, visited') \<Rightarrow>
                     scanRow w h d sy (sx + 2)
                       (if reg_width region > 5 \<and> reg_height region > 5
                        then regions @ [region] else regions, visited')
            else scanRow w h d sy (sx + 2) (regions, visited))
      else (regions, visited))"
  by pat_completeness auto
termination
  by (relation "measure (\<lambda>(w, h, d, sy, sx, st). nat (w - sx))") auto

function scanRows ::
  "int \<Rightarrow> int \<Rightarrow> int list \<Rightarrow> int \<Rightarrow> Region list \<times> int set \<Rightarrow> Region list \<times> int set" where
  "scanRows w h d sy st =
     (if sy < h then scanRows w h d (sy + 2) (scanRow w h d sy 0 st) else st)"
  by pat_completeness auto
termination
  by (relation "measure (\<lambda>(w, h, d, sy, st). nat (h - sy))") auto

text \<open>\<^verbatim>\<open>CanvasStrategy.detectRedRegions(imageData)\<close>.\<close>

definition detectRedRegions :: "ImageData \<Rightarrow> Region list" where
  "detectRedRegions imageData =
     (let w = img_width imageData; h = img_height imageData; d = img_data imageData
      in mergeOverlappingRegions (fst (scanRows w h d 0 ([], {}))))"

section \<open>Strings and the regular expressions of the parser\<close>

text \<open>
  A JavaScript string is a sequence of UTF-16 code units; \<^verbatim>\<open>.length\<close> counts code
  units.  \<open>js\<close> gives the code units of an ASCII literal.
\<close>

type_synonym jsstring = "nat list"

definition js :: "string \<Rightarrow> jsstring" where
  "js s = map of_char s"

text \<open>The character classes \<^verbatim>\<open>\d\<close>, \<^verbatim>\<open>\w\<close> and \<^verbatim>\<open>\s\<close> (no \<^verbatim>\<open>u\<close> flag).\<close>

definition isDigit :: "nat \<Rightarrow> bool" where
  "isDigit c = (48 \<le> c \<and> c \<le> 57)"

definition isWordChar :: "nat \<Rightarrow> bool" where
  "isWordChar c = (isDigit c \<or> (65 \<le> c \<and> c \<le> 90) \<or> (97 \<le> c \<and> c \<le> 122) \<or> c = 95)"

definition isSpace :: "nat \<Rightarrow> bool" where
  "isSpace c = ((9 \<le> c \<and> c \<le> 13) \<or> c = 32 \<or> c = 160 \<or> c = 5760 \<or>
                (8192 \<le> c \<and> c \<le> 8202) \<or> c = 8232 \<or> c = 8233 \<or> c = 8239 \<or>
                c = 8287 \<or> c = 12288 \<or> c = 65279)"

text \<open>\<^verbatim>\<open>String.prototype.trim\<close>.\<close>

definition trim :: "jsstring \<Rightarrow> jsstring" where
  "trim s = rev (dropWhile isSpace (rev (dropWhile isSpace s)))"

text \<open>\<^verbatim>\<open>parseInt(digits, 10)\<close> on a string of decimal digits.\<close>

definition parseInt :: "jsstring \<Rightarrow> int" where
  "parseInt ds = foldl (\<lambda>acc c. 10 * acc + (int c - 48)) 0 ds"

text \<open>\<^verbatim>\<open>Number.prototype.toString\<close> on an integer, and \<^verbatim>\<open>padStart(2, '0')\<close>.\<close>

function digitsOf :: "nat \<Rightarrow> jsstring" where
  "digitsOf n = (if n < 10 then [48 + n] else digitsOf (n div 10) @ [48 + n mod 10])"
  by pat_completeness auto
termination
  by (relation "measure id") auto

declare digitsOf.simps [simp del]

definition toString :: "int \<Rightarrow> jsstring" where
  "toString n = (if n < 0 then 45 # digitsOf (nat (- n)) else digitsOf (nat n))"

definition padStart2 :: "jsstring \<Rightarrow> jsstring" where
  "padStart2 s = replicate (2 - length s) 48 @ s"

text \<open>
  \<^verbatim>\<open>/\b(\d{1,2})\b/\<close> tried at one position whose left neighbour is not a word
  character: the number of digits matched.  Two digits are tried first; when the
  character after them is a word character the one-digit alternative fails too, since
  the second digit is itself a word character.
\<close>

fun matchDayToken :: "jsstring \<Rightarrow> nat option" where
  "matchDayToken [] = None"
| "matchDayToken [d1] = (if isDigit d1 then Some 1 else None)"
| "matchDayToken (d1 # d2 # rest) =
     (if isDigit d1 \<and> isDigit d2 then
        (case rest of [] \<Rightarrow> Some 2 | c # _ \<Rightarrow> if isWordChar c then None else Some 2)
      else if isDigit d1 \<and> \<not> isWordChar d2 then Some 1
      else None)"

text \<open>
  The leftmost match of \<^verbatim>\<open>/\b(\d{1,2})\b/\<close> in a string: the text before the match,
  the digits, and the text after.  \<open>prevWord\<close> tells whether the character before the
  current position is a word character.
\<close>

fun findDayToken :: "bool \<Rightarrow> jsstring \<Rightarrow> jsstring \<Rightarrow> (jsstring \<times> jsstring \<times> jsstring) option" where
  "findDayToken prevWord pre [] = None"
| "findDayToken prevWord pre (c # cs) =
     (case (if prevWord then None else matchDayToken (c # cs)) of
        Some n \<Rightarrow> Some (pre, take n (c # cs), drop n (c # cs))
      | None \<Rightarrow> findDayToken (isWordChar c) (pre @ [c]) cs)"

definition dayMatch :: "jsstring \<Rightarrow> (jsstring \<times> jsstring \<times> jsstring) option" where
  "dayMatch t = findDayToken False [] t"

text \<open>
  \<^verbatim>\<open>cleanEventText\<close>: drop every character outside \<^verbatim>\<open>[\w\s\-:]\<close>, replace each
  run of white space by one space, trim.
\<close>

fun collapseSpaces :: "bool \<Rightarrow> jsstring \<Rightarrow> jsstring" where
  "collapseSpaces inRun [] = []"
| "collapseSpaces inRun (c # cs) =
     (if isSpace c then (if inRun then collapseSpaces True cs else 32 # collapseSpaces True cs)
      else c # collapseSpaces False cs)"

definition cleanEventText :: "jsstring \<Rightarrow> jsstring" where
  "cleanEventText t =
     trim (collapseSpaces False
             (filter (\<lambda>c. isWordChar c \<or> isSpace c \<or> c = 45 \<or> c = 58) t))"

text \<open>\<^verbatim>\<open>/^\d{1,2}$/\<close>, \<^verbatim>\<open>/C/i\<close> and \<^verbatim>\<open>/[...]/u\<close> with the four moon glyphs
  U+1F319, U+263E, U+1F31B, U+1F31C (the astral ones are surrogate pairs
  D83C DF19, D83C DF1B, D83C DF1C).\<close>

definition isJustANumber :: "jsstring \<Rightarrow> bool" where
  "isJustANumber t = ((length t = 1 \<or> length t = 2) \<and> list_all isDigit t)"

definition hasC :: "jsstring \<Rightarrow> bool" where
  "hasC t = list_ex (\<lambda>c. c = 67 \<or> c = 99) t"

fun hasMoon :: "jsstring \<Rightarrow> bool" where
  "hasMoon [] = False"
| "hasMoon (c # cs) =
     (c = 9790 \<or>
      (c = 55356 \<and> (case cs of [] \<Rightarrow> False | l # _ \<Rightarrow> l = 57113 \<or> l = 57115 \<or> l = 57116)) \<or>
      hasMoon cs)"

text \<open>
  \<^verbatim>\<open>/(\d{1,2}):(\d{2})\s*(AM|PM|am|pm)?/gi\<close> tried at the start of a string: the
  hour digits, the minute digits, the period as matched, and the text after the match.
  The white space after the minutes belongs to the match whether or not a period follows.
\<close>

definition matchPeriod :: "jsstring \<Rightarrow> (jsstring option \<times> jsstring)" where
  "matchPeriod t =
     (case t of
        a # m # rest \<Rightarrow>
          if (a = 65 \<or> a = 97 \<or> a = 80 \<or> a = 112) \<and> (m = 77 \<or> m = 109)
          then (Some [a, m], rest) else (None, t)
      | _ \<Rightarrow> (None, t))"

definition matchTimeTail :: "jsstring \<Rightarrow> jsstring \<Rightarrow> (jsstring \<times> jsstring \<times> jsstring option \<times> jsstring) option" where
  "matchTimeTail hours t =
     (case t of
        c # m1 # m2 # rest \<Rightarrow>
          if c = 58 \<and> isDigit m1 \<and> isDigit m2
          then (case matchPeriod (dropWhile isSpace rest) of
                  (period, rest') \<Rightarrow> Some (hours, [m1, m2], period, rest'))
          else None
      | _ \<Rightarrow> None)"

definition matchTimeAt :: "jsstring \<Rightarrow> (jsstring \<times> jsstring \<times> jsstring option \<times> jsstring) option" where
  "matchTimeAt t =
     (case t of
        d1 # d2 # rest \<Rightarrow>
          if isDigit d1 \<and> isDigit d2 then matchTimeTail [d1, d2] rest
          else if isDigit d1 then matchTimeTail [d1] (d2 # rest)
          else None
      | _ \<Rightarrow> None)"

lemma matchPeriod_length: "matchPeriod t = (p, r) \<Longrightarrow> length r \<le> length t"
  by (auto simp: matchPeriod_def split: list.splits if_splits)

lemma matchTimeTail_length:
  assumes "matchTimeTail hs t = Some (h, m, p, r)"
  shows "length r < length t"
proof -
  from assms obtain c m1 m2 rest where t: "t = c # m1 # m2 # rest"
    and mp: "matchPeriod (dropWhile isSpace rest) = (p, r)"
    by (auto simp: matchTimeTail_def split: list.splits if_splits prod.splits)
  have "length r \<le> length (dropWhile isSpace rest)" using mp by (rule matchPeriod_length)
  also have "\<dots> \<le> length rest" by (rule length_dropWhile_le)
  finally show ?thesis using t by simp
qed

lemma matchTimeAt_length:
  assumes "matchTimeAt t = Some (h, m, p, r)"
  shows "length r < length t"
  using assms
  by (auto simp: matchTimeAt_def split: list.splits if_splits dest!: matchTimeTail_length)

text \<open>\<^verbatim>\<open>[...text.matchAll(timeRegex)]\<close>: all matches, scanning left to right; each match
  is kept as (hour digits, minute digits, period).\<close>

function matchAllTimes :: "jsstring \<Rightarrow> (jsstring \<times> jsstring \<times> jsstring option) list" where
  "matchAllTimes t =
     (case matchTimeAt t of
        Some (h, m, p, rest) \<Rightarrow> (h, m, p) # matchAllTimes rest
      | None \<Rightarrow> (case t of [] \<Rightarrow> [] | c # cs \<Rightarrow> matchAllTimes cs))"
  by pat_completeness auto
termination
  by (relation "measure length") (auto dest: matchTimeAt_length)

declare matchAllTimes.simps [simp del]

text \<open>\<^verbatim>\<open>title.replace(/\d{1,2}:\d{2}\s*(AM|PM|am|pm)?/gi, '')\<close>.\<close>

function removeTimes :: "jsstring \<Rightarrow> jsstring" where
  "removeTimes t =
     (case matchTimeAt t of
        Some (h, m, p, rest) \<Rightarrow> removeTimes rest
      | None \<Rightarrow> (case t of [] \<Rightarrow> [] | c # cs \<Rightarrow> c # removeTimes cs))"
  by pat_completeness auto
termination
  by (relation "measure length") (auto dest: matchTimeAt_length)

declare removeTimes.simps [simp del]

text \<open>
  The callback of \<^verbatim>\<open>matches.map\<close> in \<^verbatim>\<open>extractTimeFromText\<close>: the period is
  upper-cased, \<^verbatim>\<open>PM\<close> adds 12 to every hour but 12, \<^verbatim>\<open>AM\<close> turns 12 into 0.
\<close>

definition toUpperPeriod :: "jsstring \<Rightarrow> jsstring" where
  "toUpperPeriod p = map (\<lambda>c. if 97 \<le> c \<and> c \<le> 122 then c - 32 else c) p"

definition normalizeHours :: "jsstring option \<Rightarrow> int \<Rightarrow> int" where
  "normalizeHours period hours =
     (let h1 = (if period = Some (js ''PM'') \<and> hours \<noteq> 12 then hours + 12 else hours)
      in if period = Some (js ''AM'') \<and> h1 = 12 then 0 else h1)"

fun formatTime :: "jsstring \<times> jsstring \<times> jsstring option \<Rightarrow> jsstring" where
  "formatTime (h, minutes, p) =
     padStart2 (toString (normalizeHours (map_option toUpperPeriod p) (parseInt h)))
       @ js '':'' @ minutes"

text \<open>\<^verbatim>\<open>extractTimeFromText\<close>: \<open>None\<close> is \<^verbatim>\<open>null\<close>; a missing \<open>endTime\<close> is
  \<^verbatim>\<open>undefined\<close>.\<close>

definition extractTimeFromText :: "jsstring \<Rightarrow> (jsstring \<times> jsstring option) option" where
  "extractTimeFromText t =
     (let times = map formatTime (matchAllTimes t)
      in case times of
           [] \<Rightarrow> None
         | t0 # ts \<Rightarrow> Some (t0, (case ts of [] \<Rightarrow> None | t1 # _ \<Rightarrow> Some t1)))"

section \<open>Calendar dates\<close>

text \<open>
  What the parser reads from a \<^verbatim>\<open>Date\<close>: \<^verbatim>\<open>getFullYear()\<close>,
  \<^verbatim>\<open>getMonth()\<close> (0 to 11) and \<^verbatim>\<open>getDate()\<close>.
\<close>

record JSDate =
  fullYear :: int
  monthIndex :: int
  dayOfMonth :: int

definition isLeapYear :: "int \<Rightarrow> bool" where
  "isLeapYear yr = ((yr mod 4 = 0 \<and> yr mod 100 \<noteq> 0) \<or> yr mod 400 = 0)"

definition daysIn :: "int \<Rightarrow> int \<Rightarrow> int" where
  "daysIn yr mi =
     (if mi = 1 then (if isLeapYear yr then 29 else 28)
      else if mi = 3 \<or> mi = 5 \<or> mi = 8 \<or> mi = 10 then 30
      else 31)"

lemma daysIn_bounds: "28 \<le> daysIn yr mi \<and> daysIn yr mi \<le> 31"
  by (simp add: daysIn_def)

text \<open>
  A day number relative to a month \<open>mi\<close> in 0 to 11 of a year, carried into the
  following or the preceding months until it names a day of its month, as
  \<^verbatim>\<open>MakeDay\<close> does.
\<close>

function normalizeDay :: "int \<Rightarrow> int \<Rightarrow> int \<Rightarrow> JSDate" where
  "normalizeDay yr mi dy =
     (if dy < 1 then
        (let yr' = (if mi = 0 then yr - 1 else yr);
             mi' = (if mi = 0 then 11 else mi - 1)
         in normalizeDay yr' mi' (dy + daysIn yr' mi'))
      else if dy > daysIn yr mi then
        normalizeDay (if mi = 11 then yr + 1 else yr) (if mi = 11 then 0 else mi + 1)
          (dy - daysIn yr mi)
      else \<lparr>fullYear = yr, monthIndex = mi, dayOfMonth = dy\<rparr>)"
  by pat_completeness auto
termination
proof (relation "measures [\<lambda>(yr, mi, dy). if dy < 1 then 1 else 0,
                           \<lambda>(yr, mi, dy). if dy < 1 then nat (1 - dy) else nat dy]",
       goal_cases)
  case 1
  show ?case by simp
next
  case (2 yr mi dy yr' mi')
  have "28 \<le> daysIn yr' mi'" using daysIn_bounds by blast
  with 2 show ?case by auto
next
  case (3 yr mi dy)
  have "28 \<le> daysIn yr mi" using daysIn_bounds by blast
  with 3 show ?case by auto
qed

declare normalizeDay.simps [simp del]

text \<open>
  \<^verbatim>\<open>new Date(year, monthIndex, day)\<close> in local time: a year from 0 to 99 means
  1900 + year, the month index is carried into the year, then the day into the month.
  This is the date for the years a \<^verbatim>\<open>Date\<close> can hold (up to 275760); beyond them
  the real value is an invalid date, which the model does not have, so statements about
  dates are made for years in that range.
\<close>

definition newDate :: "int \<Rightarrow> int \<Rightarrow> int \<Rightarrow> JSDate" where
  "newDate yr mi dy =
     (let full = (if 0 \<le> yr \<and> yr \<le> 99 then 1900 + yr else yr)
      in normalizeDay (full + mi div 12) (mi mod 12) dy)"

section \<open>The calendar reconstructor: \<^verbatim>\<open>parseCalendarFromOCR\<close>\<close>

datatype CalendarType = Standard | Jojo

record OCRResult =
  ocr_text :: jsstring
  ocr_region :: Region
  ocr_confidence :: int

record CalendarEvent =
  ev_id :: jsstring
  ev_title :: jsstring
  ev_date :: JSDate
  ev_startTime :: "jsstring option"
  ev_endTime :: "jsstring option"

record ParsedCalendarData =
  pcd_year :: int
  pcd_month :: int
  pcd_events :: "CalendarEvent list"

record DateInfo =
  di_day :: int
  di_weekIndex :: int
  di_y :: int
  di_resultIndex :: nat

subsection \<open>Canonical ordering\<close>

text \<open>
  The comparator of \<^verbatim>\<open>[...ocrResults].sort((a, b) => ...)\<close>: a difference in Y of 50
  or more decides, otherwise the difference in X.
\<close>

definition compareResults :: "OCRResult \<Rightarrow> OCRResult \<Rightarrow> int" where
  "compareResults a b =
     (let yDiff = reg_y (ocr_region a) - reg_y (ocr_region b)
      in if \<bar>yDiff\<bar> \<ge> 50 then yDiff
         else reg_x (ocr_region a) - reg_x (ocr_region b))"

text \<open>
  \<^verbatim>\<open>Array.prototype.sort\<close> is a stable sort.  It is modelled as the stable insertion
  sort: the elements are inserted in input order, each one before the first element it
  compares below.  For a comparator that is a consistent ordering of the input every
  stable sort returns this list; for an inconsistent one (rows that chain into one
  another) the language leaves the order to the engine, and an engine may return another
  list than this one.  The statements below that depend on the order are made for
  fragment lists whose rows are separated; the example of chained rows is refuted for
  every order of its list.
\<close>

fun insertBy :: "('a \<Rightarrow> 'a \<Rightarrow> int) \<Rightarrow> 'a \<Rightarrow> 'a list \<Rightarrow> 'a list" where
  "insertBy cmp a [] = [a]"
| "insertBy cmp a (b # bs) = (if cmp a b < 0 then a # b # bs else b # insertBy cmp a bs)"

definition jsSort :: "('a \<Rightarrow> 'a \<Rightarrow> int) \<Rightarrow> 'a list \<Rightarrow> 'a list" where
  "jsSort cmp xs = foldl (\<lambda>acc a. insertBy cmp a acc) [] xs"

definition sortResults :: "OCRResult list \<Rightarrow> OCRResult list" where
  "sortResults ocrResults = jsSort compareResults ocrResults"

subsection \<open>Week rows: \<^verbatim>\<open>assignWeekIndices\<close>\<close>

text \<open>The loop that builds \<open>rows\<close> from the sorted Y positions.\<close>

fun buildRows :: "int list \<Rightarrow> int list \<Rightarrow> int list" where
  "buildRows rows [] = rows"
| "buildRows rows (p # ps) =
     (if \<bar>p - last rows\<bar> \<ge> 50 then buildRows (rows @ [p]) ps else buildRows rows ps)"

text \<open>\<^verbatim>\<open>Array.prototype.findIndex\<close>: \<open>-1\<close> when no element satisfies the predicate.\<close>

fun findIndexFrom :: "('a \<Rightarrow> bool) \<Rightarrow> int \<Rightarrow> 'a list \<Rightarrow> int" where
  "findIndexFrom P k [] = -1"
| "findIndexFrom P k (a # as) = (if P a then k else findIndexFrom P (k + 1) as)"

definition findIndex :: "('a \<Rightarrow> bool) \<Rightarrow> 'a list \<Rightarrow> int" where
  "findIndex P xs = findIndexFrom P 0 xs"

text \<open>
  The second loop of \<^verbatim>\<open>assignWeekIndices\<close>, which fills the \<^verbatim>\<open>Map\<close>.  Entries
  with \<open>x = 0\<close> and text \<open>"1"\<close> are skipped (but still counted in \<open>resultIndex\<close>).
\<close>

fun assignLoop ::
  "int list \<Rightarrow> int \<Rightarrow> nat \<Rightarrow> OCRResult list \<Rightarrow> (nat \<rightharpoonup> DateInfo) \<Rightarrow> (nat \<rightharpoonup> DateInfo)" where
  "assignLoop rows weekOffset resultIndex [] dateMap = dateMap"
| "assignLoop rows weekOffset resultIndex (result # results) dateMap =
     (if reg_x (ocr_region result) = 0 \<and> ocr_text result = js ''1''
      then assignLoop rows weekOffset (resultIndex + 1) results dateMap
      else case dayMatch (ocr_text result) of
             None \<Rightarrow> assignLoop rows weekOffset (resultIndex + 1) results dateMap
           | Some (pre, digits, post) \<Rightarrow>
               assignLoop rows weekOffset (resultIndex + 1) results
                 (dateMap(resultIndex \<mapsto>
                    \<lparr>di_day = parseInt digits,
                     di_weekIndex =
                       max 0 (findIndex (\<lambda>ry. \<bar>ry - reg_y (ocr_region result)\<bar> < 50) rows
                              - weekOffset),
                     di_y = reg_y (ocr_region result),
                     di_resultIndex = resultIndex\<rparr>)))"

definition dayYPositions :: "OCRResult list \<Rightarrow> int list" where
  "dayYPositions results =
     map (\<lambda>r. reg_y (ocr_region r)) (filter (\<lambda>r. dayMatch (ocr_text r) \<noteq> None) results)"

definition weekRows :: "int list \<Rightarrow> int list" where
  "weekRows yPositions = (let ys = sort yPositions in buildRows [hd ys] (tl ys))"

definition assignWeekIndices :: "OCRResult list \<Rightarrow> (nat \<rightharpoonup> DateInfo)" where
  "assignWeekIndices results =
     (if length results = 0 then Map.empty
      else if length (dayYPositions results) = 0 then Map.empty
      else let rows = weekRows (dayYPositions results);
               weekOffset = (if length rows > 6 then int (length rows) - 6 else 0)
           in assignLoop rows weekOffset 0 results Map.empty)"

subsection \<open>Month disambiguation\<close>

text \<open>The month-tracking variables of \<^verbatim>\<open>parseCalendarFromOCR\<close>.\<close>

record MonthState =
  lastDay :: int
  currentWeek :: int
  hasTransitionedToCurrent :: bool
  hasBeenInCurrentMonth :: bool
  isInNextMonth :: bool
  hasSeenEndOfMonth :: bool

definition initialMonthState :: MonthState where
  "initialMonthState =
     \<lparr>lastDay = 0, currentWeek = -1, hasTransitionedToCurrent = False,
      hasBeenInCurrentMonth = False, isInNextMonth = False, hasSeenEndOfMonth = False\<rparr>"

text \<open>
  The chain of \<^verbatim>\<open>if / else if\<close> that decides \<open>monthOffset\<close> for one day number and
  updates the tracking variables, given \<open>isNewWeek\<close> and the state after the week update.
\<close>

definition monthRules :: "int \<Rightarrow> int \<Rightarrow> int \<Rightarrow> bool \<Rightarrow> MonthState \<Rightarrow> int \<times> MonthState" where
  "monthRules daysInMonth day weekIndex isNewWeek st =
     (if weekIndex = 0 \<and> day \<ge> 25 \<and> lastDay st = 0 \<and> \<not> hasBeenInCurrentMonth st
        then (-1, st)
      else if weekIndex = 0 \<and> lastDay st \<ge> 28 \<and> day \<le> 5 \<and> \<not> hasTransitionedToCurrent st
        then (0, st\<lparr>hasTransitionedToCurrent := True, hasBeenInCurrentMonth := True\<rparr>)
      else if weekIndex \<ge> 3 \<and> lastDay st \<ge> 25 \<and> day \<le> 5
        then (1, st\<lparr>isInNextMonth := True\<rparr>)
      else if weekIndex \<ge> 4 \<and> day \<le> 10 \<and> hasSeenEndOfMonth st
        then (1, st\<lparr>isInNextMonth := True\<rparr>)
      else if weekIndex \<ge> 4 \<and> day \<le> 5 \<and> lastDay st = 0
        then (1, st\<lparr>isInNextMonth := True\<rparr>)
      else if weekIndex \<ge> 4 \<and> day > daysInMonth
        then (1, st\<lparr>isInNextMonth := True\<rparr>)
      else if isNewWeek \<and> day \<ge> 25 \<and> hasBeenInCurrentMonth st \<and> weekIndex \<ge> 3
        then (0, st\<lparr>hasTransitionedToCurrent := True,
                    hasSeenEndOfMonth := (if day \<ge> 24 then True else hasSeenEndOfMonth st)\<rparr>)
      else if weekIndex = 0 \<and> day = lastDay st + 1 \<and> day \<ge> 25
        then (-1, st)
      else if isInNextMonth st \<and> day = lastDay st + 1
        then (1, st)
      else if day = lastDay st + 1 \<or> (lastDay st = 0 \<and> day = 1)
        then (0, (if \<not> hasBeenInCurrentMonth st \<and> weekIndex > 0
                  then st\<lparr>hasBeenInCurrentMonth := True, hasTransitionedToCurrent := True\<rparr>
                  else st)
                 \<lparr>hasSeenEndOfMonth :=
                    (if day \<ge> 24 \<and> weekIndex \<ge> 3 then True else hasSeenEndOfMonth st)\<rparr>)
      else if \<not> hasBeenInCurrentMonth st \<and> day > 5 \<and> day < 25
        then (0, st\<lparr>hasBeenInCurrentMonth := True, hasTransitionedToCurrent := True\<rparr>)
      else (0, st))"

text \<open>
  One day number through the tracker: the week update, the rule chain, and
  \<^verbatim>\<open>lastDay = day\<close>.
\<close>

definition detectMonth :: "int \<Rightarrow> int \<Rightarrow> int \<Rightarrow> MonthState \<Rightarrow> int \<times> MonthState" where
  "detectMonth daysInMonth day weekIndex st =
     (case monthRules daysInMonth day weekIndex (weekIndex \<noteq> currentWeek st)
             (if weekIndex \<noteq> currentWeek st then st\<lparr>currentWeek := weekIndex\<rparr> else st) of
        (monthOffset, st') \<Rightarrow> (monthOffset, st'\<lparr>lastDay := day\<rparr>))"

text \<open>\<open>actualYear\<close> and \<open>actualMonth\<close>, with the year boundaries.\<close>

definition actualYearMonth :: "int \<Rightarrow> int \<Rightarrow> int \<Rightarrow> int \<times> int" where
  "actualYearMonth yr mo monthOffset =
     (let actualMonth = mo + monthOffset
      in if actualMonth = 0 then (yr - 1, 12)
         else if actualMonth = 13 then (yr + 1, 1)
         else (yr, actualMonth))"

subsection \<open>Titles\<close>

text \<open>
  The text of the fragment after the first day token is removed: \<open>pre\<close> and \<open>post\<close>
  are the parts around the match.
\<close>

definition ownTitle :: "jsstring \<Rightarrow> jsstring \<Rightarrow> jsstring" where
  "ownTitle pre post =
     (let afterDate = trim (pre @ post)
      in if length afterDate > 1 then cleanEventText afterDate else [])"

text \<open>The proximity check on the next fragment; \<open>None\<close> when it is not accepted.\<close>

definition nearbyTitle :: "OCRResult \<Rightarrow> OCRResult \<Rightarrow> jsstring option" where
  "nearbyTitle result nextResult =
     (let yDiff = \<bar>reg_y (ocr_region nextResult) - reg_y (ocr_region result)\<bar>;
          xDiff = \<bar>reg_x (ocr_region nextResult) - reg_x (ocr_region result)\<bar>;
          isSameRow = yDiff < 60;
          isDirectlyBelow = (yDiff > 0 \<and> yDiff < 100 \<and> xDiff < 50);
          isNearbyX = xDiff < 150;
          isNotJustANumber = (\<not> isJustANumber (ocr_text nextResult))
      in if (isSameRow \<or> isDirectlyBelow) \<and> isNearbyX \<and> isNotJustANumber
         then Some (cleanEventText (ocr_text nextResult)) else None)"

text \<open>
  \<open>eventTitle\<close> after the three steps of the loop body: the fragment's own text, the
  next fragment (standard mode, only when the own text gave nothing), the shift labels
  (jojo mode).  The empty string is the falsy title.
\<close>

definition standardTitle :: "CalendarType \<Rightarrow> OCRResult \<Rightarrow> OCRResult option \<Rightarrow> jsstring \<Rightarrow> jsstring" where
  "standardTitle calendarType result next t0 =
     (if t0 = [] \<and> calendarType = Standard
      then (case next of
              None \<Rightarrow> t0
            | Some nextResult \<Rightarrow>
                (case nearbyTitle result nextResult of None \<Rightarrow> t0 | Some t \<Rightarrow> t))
      else t0)"

definition shiftTitle :: "CalendarType \<Rightarrow> jsstring \<Rightarrow> jsstring \<Rightarrow> jsstring" where
  "shiftTitle calendarType txt t1 =
     (if calendarType = Jojo
      then (if hasC txt \<or> hasMoon txt then js ''nightshift''
            else if t1 \<noteq> [] then t1 else js ''dayshift'')
      else t1)"

definition resolveTitle ::
  "CalendarType \<Rightarrow> OCRResult \<Rightarrow> OCRResult option \<Rightarrow> jsstring \<Rightarrow> jsstring \<Rightarrow> jsstring" where
  "resolveTitle calendarType result next pre post =
     shiftTitle calendarType (ocr_text result)
       (standardTitle calendarType result next (ownTitle pre post))"

subsection \<open>Events\<close>

text \<open>The duplicate check \<^verbatim>\<open>events.some(...)\<close>.\<close>

definition isDuplicate :: "CalendarEvent list \<Rightarrow> int \<Rightarrow> int \<Rightarrow> int \<Rightarrow> jsstring \<Rightarrow> bool" where
  "isDuplicate events day actualMonth actualYear eventTitle =
     list_ex (\<lambda>e. dayOfMonth (ev_date e) = day \<and> monthIndex (ev_date e) = actualMonth - 1 \<and>
                  fullYear (ev_date e) = actualYear \<and> ev_title e = eventTitle) events"

text \<open>
  The identifier \<^verbatim>\<open>`event-${day}-${actualMonth}-${actualYear}-${Date.now()}-${...}`\<close>;
  \<open>idSuffix\<close> stands for the clock and random part, which differs from run to run.
\<close>

definition eventId :: "jsstring \<Rightarrow> int \<Rightarrow> int \<Rightarrow> int \<Rightarrow> jsstring" where
  "eventId idSuffix day actualMonth actualYear =
     js ''event-'' @ toString day @ js ''-'' @ toString actualMonth @ js ''-''
       @ toString actualYear @ js ''-'' @ idSuffix"

text \<open>The new event, with the times taken out of the title when there are any.\<close>

definition buildEvent :: "jsstring \<Rightarrow> jsstring \<Rightarrow> int \<Rightarrow> int \<Rightarrow> int \<Rightarrow> CalendarEvent" where
  "buildEvent idSuffix eventTitle day actualMonth actualYear =
     (case extractTimeFromText eventTitle of
        None \<Rightarrow>
          \<lparr>ev_id = eventId idSuffix day actualMonth actualYear, ev_title = eventTitle,
           ev_date = newDate actualYear (actualMonth - 1) day,
           ev_startTime = None, ev_endTime = None\<rparr>
      | Some (startTime, endTime) \<Rightarrow>
          \<lparr>ev_id = eventId idSuffix day actualMonth actualYear,
           ev_title = trim (removeTimes eventTitle),
           ev_date = newDate actualYear (actualMonth - 1) day,
           ev_startTime = Some startTime, ev_endTime = endTime\<rparr>)"

text \<open>The end of the loop body: nothing for an empty title or a duplicate, else one
  more event.\<close>

definition addEvent ::
  "jsstring \<Rightarrow> jsstring \<Rightarrow> int \<Rightarrow> int \<times> int \<Rightarrow> CalendarEvent list \<Rightarrow> CalendarEvent list" where
  "addEvent idSuffix eventTitle day ym events =
     (if eventTitle = [] then events
      else if isDuplicate events day (snd ym) (fst ym) eventTitle then events
      else events @ [buildEvent idSuffix eventTitle day (snd ym) (fst ym)])"

subsection \<open>The main loop\<close>

text \<open>
  The body of \<^verbatim>\<open>for (let i = 0; i < sortedResults.length; i++)\<close> for the fragment
  \<open>result\<close> at index \<open>i\<close>; \<open>next\<close> is \<^verbatim>\<open>sortedResults[i + 1]\<close> when there is one.
  \<open>ids i\<close> is the clock and random part of an identifier made in iteration \<open>i\<close>.
\<close>

fun processResult ::
  "(nat \<Rightarrow> jsstring) \<Rightarrow> int \<Rightarrow> int \<Rightarrow> CalendarType \<Rightarrow> int \<Rightarrow> (nat \<rightharpoonup> DateInfo) \<Rightarrow>
   nat \<Rightarrow> OCRResult \<Rightarrow> OCRResult option \<Rightarrow> MonthState \<times> CalendarEvent list \<Rightarrow>
   MonthState \<times> CalendarEvent list" where
  "processResult ids yr mo calendarType daysInMonth datesWithWeeks i result next (st, events) =
     (case dayMatch (ocr_text result) of
        None \<Rightarrow> (st, events)
      | Some (pre, digits, post) \<Rightarrow>
          if parseInt digits < 1 \<or> parseInt digits > 31 then (st, events)
          else case datesWithWeeks i of
                 None \<Rightarrow> (st, events)
               | Some dateInfo \<Rightarrow>
                   (case detectMonth daysInMonth (parseInt digits) (di_weekIndex dateInfo) st of
                      (monthOffset, st') \<Rightarrow>
                        (st', addEvent (ids i) (resolveTitle calendarType result next pre post)
                                (parseInt digits) (actualYearMonth yr mo monthOffset) events)))"

declare processResult.simps [simp del]

fun parseLoop ::
  "(nat \<Rightarrow> jsstring) \<Rightarrow> int \<Rightarrow> int \<Rightarrow> CalendarType \<Rightarrow> int \<Rightarrow> (nat \<rightharpoonup> DateInfo) \<Rightarrow>
   nat \<Rightarrow> OCRResult list \<Rightarrow> MonthState \<times> CalendarEvent list \<Rightarrow>
   MonthState \<times> CalendarEvent list" where
  "parseLoop ids yr mo calendarType daysInMonth datesWithWeeks i [] s = s"
| "parseLoop ids yr mo calendarType daysInMonth datesWithWeeks i (result # rest) s =
     parseLoop ids yr mo calendarType daysInMonth datesWithWeeks (i + 1) rest
       (processResult ids yr mo calendarType daysInMonth datesWithWeeks i result
          (case rest of [] \<Rightarrow> None | nextResult # _ \<Rightarrow> Some nextResult) s)"

text \<open>
  \<^verbatim>\<open>parseCalendarFromOCR(ocrResults, year, month, calendarType)\<close>.  The function has
  no \<^verbatim>\<open>throw\<close>: every call ends in the \<^verbatim>\<open>return\<close> of its last line, which is the
  \<open>Inr\<close> here; \<open>Inl\<close> would be a thrown error with its message.
\<close>

definition parseEvents ::
  "(nat \<Rightarrow> jsstring) \<Rightarrow> OCRResult list \<Rightarrow> int \<Rightarrow> int \<Rightarrow> CalendarType \<Rightarrow> CalendarEvent list" where
  "parseEvents ids ocrResults yr mo calendarType =
     snd (parseLoop ids yr mo calendarType (dayOfMonth (newDate yr mo 0))
            (assignWeekIndices (sortResults ocrResults)) 0 (sortResults ocrResults)
            (initialMonthState, []))"

definition parseCalendarFromOCR ::
  "(nat \<Rightarrow> jsstring) \<Rightarrow> OCRResult list \<Rightarrow> int \<Rightarrow> int \<Rightarrow> CalendarType \<Rightarrow>
   jsstring + ParsedCalendarData" where
  "parseCalendarFromOCR ids ocrResults yr mo calendarType =
     Inr \<lparr>pcd_year = yr, pcd_month = mo,
          pcd_events = parseEvents ids ocrResults yr mo calendarType\<rparr>"

subsection \<open>Fixtures of the parser's test suite\<close>

text \<open>
  \<^verbatim>\<open>createOCRResult(text, x, y)\<close> and \<^verbatim>\<open>withCalendarStructure(results)\<close> of
  parser.test.ts: the latter puts one entry with text \<open>"1"\<close> at \<open>x = 0\<close> on each of the
  six rows 150, 200, ..., 400 in front of the fragments.
\<close>

definition createOCRResult :: "string \<Rightarrow> int \<Rightarrow> int \<Rightarrow> OCRResult" where
  "createOCRResult t px py =
     \<lparr>ocr_text = js t,
      ocr_region = \<lparr>reg_x = px, reg_y = py, reg_width = 50, reg_height = 50\<rparr>,
      ocr_confidence = 90\<rparr>"

definition withCalendarStructure :: "OCRResult list \<Rightarrow> OCRResult list" where
  "withCalendarStructure results =
     [createOCRResult ''1'' 0 150, createOCRResult ''1'' 0 200, createOCRResult ''1'' 0 250,
      createOCRResult ''1'' 0 300, createOCRResult ''1'' 0 350, createOCRResult ''1'' 0 400]
     @ results"

text \<open>A sample value of the clock and random part of the identifiers.\<close>

definition sampleIds :: "nat \<Rightarrow> jsstring" where
  "sampleIds i = js ''1700000000000-k3j9x2m1q''"

section \<open>Notions used in the statements\<close>

text \<open>What is compared between two runs: everything of an event but its identifier.\<close>

abbreviation eventCore :: "CalendarEvent \<Rightarrow> JSDate \<times> jsstring \<times> jsstring option \<times> jsstring option" where
  "eventCore e \<equiv> (ev_date e, ev_title e, ev_startTime e, ev_endTime e)"

text \<open>
  The spellings of the two periods that the time pattern accepts, the text of an optional
  period, and what a 24-hour time \<open>HH:MM\<close> is: two digits, a colon and two digits, the
  hour at most 23 and the minutes at most 59.
\<close>

definition amTexts :: "jsstring list" where
  "amTexts = map js [''AM'', ''Am'', ''aM'', ''am'']"

definition pmTexts :: "jsstring list" where
  "pmTexts = map js [''PM'', ''Pm'', ''pM'', ''pm'']"

definition periodText :: "jsstring option \<Rightarrow> jsstring" where
  "periodText p = (case p of None \<Rightarrow> [] | Some q \<Rightarrow> q)"

definition isTime24 :: "jsstring \<Rightarrow> bool" where
  "isTime24 s =
     (case s of
        [a, b, c, d, e] \<Rightarrow>
          isDigit a \<and> isDigit b \<and> c = 58 \<and> isDigit d \<and> isDigit e
          \<and> parseInt [a, b] \<le> 23 \<and> parseInt [d, e] \<le> 59
      | _ \<Rightarrow> False)"

text \<open>
  Two fragments are on the same row when their Y differ by less than 50.  The order the
  comparator asks for: by Y across rows, by X within a row.  \<open>rowsSeparated\<close> says that
  being on the same row is transitive on a set of fragments, that is, the rows do not
  chain into one another.
\<close>

definition sameRow :: "OCRResult \<Rightarrow> OCRResult \<Rightarrow> bool" where
  "sameRow a b = (\<bar>reg_y (ocr_region a) - reg_y (ocr_region b)\<bar> < 50)"

definition rowThenColumn :: "OCRResult \<Rightarrow> OCRResult \<Rightarrow> bool" where
  "rowThenColumn a b =
     (if \<bar>reg_y (ocr_region a) - reg_y (ocr_region b)\<bar> \<ge> 50
      then reg_y (ocr_region a) < reg_y (ocr_region b)
      else reg_x (ocr_region a) \<le> reg_x (ocr_region b))"

definition rowsSeparated :: "OCRResult set \<Rightarrow> bool" where
  "rowsSeparated S = (\<forall>p \<in> S. \<forall>q \<in> S. \<forall>r \<in> S. sameRow p q \<and> sameRow q r \<longrightarrow> sameRow p r)"

text \<open>
  The order as the specification words it: a pair more than 50 apart in Y has the
  smaller Y first, a pair within 50 has its X ascending.
\<close>

definition claimedBefore :: "OCRResult \<Rightarrow> OCRResult \<Rightarrow> bool" where
  "claimedBefore a b =
     (if \<bar>reg_y (ocr_region a) - reg_y (ocr_region b)\<bar> > 50
      then reg_y (ocr_region a) < reg_y (ocr_region b)
      else reg_x (ocr_region a) \<le> reg_x (ocr_region b))"

section \<open>Properties of region detection\<close>

text \<open>The two overlapping regions of the specification's scenario become one.\<close>

lemma test_two_overlapping_regions_merge:
  "mergeOverlappingRegions
     [\<lparr>reg_x = 0, reg_y = 0, reg_width = 10, reg_height = 10\<rparr>,
      \<lparr>reg_x = 5, reg_y = 5, reg_width = 10, reg_height = 10\<rparr>]
   = [\<lparr>reg_x = 0, reg_y = 0, reg_width = 15, reg_height = 15\<rparr>]"
  by (simp add: mergeOverlappingRegions_def regionsOverlap_def mergeTwoRegions_def upt_rec)

text \<open>
  Claim C1 (region merge closure): the list returned by \<open>mergeOverlappingRegions\<close> should
  contain no two regions that overlap or touch.  The merge loop only ever compares the
  growing box with regions that are still unused; a box that was already emitted is never
  looked at again.  For the input below (a small box found first, then a vertical and a
  horizontal bar whose union encloses it) the function returns two regions, and they overlap.
\<close>

theorem mergeOverlappingRegions_emitted_region_overlaps:
  "mergeOverlappingRegions
     [\<lparr>reg_x = 50, reg_y = 0, reg_width = 20, reg_height = 20\<rparr>,
      \<lparr>reg_x = 0, reg_y = 10, reg_width = 20, reg_height = 100\<rparr>,
      \<lparr>reg_x = 0, reg_y = 100, reg_width = 100, reg_height = 20\<rparr>]
   = [\<lparr>reg_x = 50, reg_y = 0, reg_width = 20, reg_height = 20\<rparr>,
      \<lparr>reg_x = 0, reg_y = 10, reg_width = 100, reg_height = 110\<rparr>]
   \<and> regionsOverlap \<lparr>reg_x = 50, reg_y = 0, reg_width = 20, reg_height = 20\<rparr>
                      \<lparr>reg_x = 0, reg_y = 10, reg_width = 100, reg_height = 110\<rparr>"
  by (simp add: mergeOverlappingRegions_def regionsOverlap_def mergeTwoRegions_def upt_rec)

text \<open>The set \<open>used\<close> only grows, and an outer pass that is not skipped marks its own
  region.\<close>

lemma mergeWhile_used_mono: "mergeWhile regions c u = (c', u') \<Longrightarrow> u \<subseteq> u'"
proof (induction regions c u arbitrary: c' u' rule: mergeWhile.induct)
  case (1 regions current used)
  obtain c1 u1 m1 where p: "mergePass regions [0..<length regions] (current, used, False) = (c1, u1, m1)"
    by (cases "mergePass regions [0..<length regions] (current, used, False)") auto
  from mergePass_used_mono[OF p] have s1: "used \<subseteq> u1" by simp
  show ?case
  proof (cases m1)
    case True
    with p "1.prems" have "mergeWhile regions c1 u1 = (c', u')"
      by (simp add: mergeWhile.simps[of regions current used])
    from "1.IH"[OF p[symmetric] refl True this] s1 show ?thesis by auto
  next
    case False
    with p "1.prems" have "u' = u1" by (simp add: mergeWhile.simps[of regions current used])
    with s1 show ?thesis by simp
  qed
qed

lemma mergeOuter_single_pass:
  assumes "i \<notin> used"
  shows "\<exists>current used'. mergeOuter regions [i] (merged, used) = (merged @ [current], used')
           \<and> i \<in> used' \<and> used \<subseteq> used'"
proof -
  obtain c u' where w: "mergeWhile regions (regions ! i) (insert i used) = (c, u')"
    by (cases "mergeWhile regions (regions ! i) (insert i used)") auto
  from mergeWhile_used_mono[OF w] have "i \<in> u'" "used \<subseteq> u'" by auto
  with assms w show ?thesis by simp
qed
text \<open>
  Claim C10 (termination of the canvas strategy), as stated: every pass of the merge loop
  marks a previously unused region as used.  The last pass of every \<^verbatim>\<open>while\<close> loop
  marks none (that is how the loop ends): on a single region, the only pass that runs
  leaves \<open>used\<close> as it was.
\<close>

theorem mergePass_last_pass_marks_nothing:
  "mergePass [\<lparr>reg_x = 0, reg_y = 0, reg_width = 10, reg_height = 10\<rparr>] [0..<1]
     (\<lparr>reg_x = 0, reg_y = 0, reg_width = 10, reg_height = 10\<rparr>, {0}, False)
   = (\<lparr>reg_x = 0, reg_y = 0, reg_width = 10, reg_height = 10\<rparr>, {0}, False)"
  by (simp add: upt_rec)

text \<open>
  Claim C10, amended: an iteration of the flood-fill loop either marks a pixel of the
  buffer that was not visited before, or leaves \<open>visited\<close> alone and shrinks the stack;
  a pass of the \<^verbatim>\<open>while\<close> loop of the merge that asks for another pass has marked a
  previously unused region as used, and a pass of the outer loop that is not skipped
  marks its own region.  Both loops therefore terminate, and the loop functions satisfy
  their recursion equations for every input (they are total), hence so does
  \<open>detectRedRegions\<close>.
\<close>

theorem detectRedRegions_loops_terminate:
  "(stack \<noteq> [] \<longrightarrow>
      (\<exists>stack' visited' bb'.
         findClusterStep w h d (stack, visited, bb) = (stack', visited', bb') \<and>
         ((\<exists>idx. 0 \<le> idx \<and> idx < w * h \<and> idx \<notin> visited \<and> visited' = insert idx visited)
          \<or> (visited' = visited \<and> length stack' < length stack))))
   \<and> (\<forall>current' used'.
         mergePass regions [0..<length regions] (current, used, False) = (current', used', True)
         \<longrightarrow> used \<subseteq> used' \<and> (\<exists>j<length regions. j \<notin> used \<and> j \<in> used'))
   \<and> (i \<notin> used \<longrightarrow>
        (\<exists>current' used'. mergeOuter regions [i] (merged, used) = (merged @ [current'], used')
           \<and> i \<in> used' \<and> used \<subseteq> used'))
   \<and> findClusterLoop w h d stack visited bb =
       (if stack = [] then (visited, bb)
        else case findClusterStep w h d (stack, visited, bb) of
               (stack', visited', bb') \<Rightarrow> findClusterLoop w h d stack' visited' bb')
   \<and> mergeWhile regions current used =
       (case mergePass regions [0..<length regions] (current, used, False) of
          (current', used', mergedNew) \<Rightarrow>
            if mergedNew then mergeWhile regions current' used' else (current', used'))"
proof (intro conjI impI allI)
  assume ne: "stack \<noteq> []"
  obtain stack' visited' bb' where
    st: "findClusterStep w h d (stack, visited, bb) = (stack', visited', bb')"
    by (cases "findClusterStep w h d (stack, visited, bb)") auto
  from findClusterStep_progress[OF ne st] st
  show "\<exists>stack' visited' bb'.
         findClusterStep w h d (stack, visited, bb) = (stack', visited', bb') \<and>
         ((\<exists>idx. 0 \<le> idx \<and> idx < w * h \<and> idx \<notin> visited \<and> visited' = insert idx visited)
          \<or> (visited' = visited \<and> length stack' < length stack))"
    by blast
next
  fix current' used'
  assume p: "mergePass regions [0..<length regions] (current, used, False) = (current', used', True)"
  from mergePass_used_mono[OF p] show "used \<subseteq> used'" by simp
  from mergePass_flag[OF p] show "\<exists>j<length regions. j \<notin> used \<and> j \<in> used'" by auto
next
  assume "i \<notin> used"
  then show "\<exists>current' used'. mergeOuter regions [i] (merged, used) = (merged @ [current'], used')
           \<and> i \<in> used' \<and> used \<subseteq> used'"
    by (rule mergeOuter_single_pass)
next
  show "findClusterLoop w h d stack visited bb =
       (if stack = [] then (visited, bb)
        else case findClusterStep w h d (stack, visited, bb) of
               (stack', visited', bb') \<Rightarrow> findClusterLoop w h d stack' visited' bb')"
    by (rule findClusterLoop.simps)
next
  show "mergeWhile regions current used =
       (case mergePass regions [0..<length regions] (current, used, False) of
          (current', used', mergedNew) \<Rightarrow>
            if mergedNew then mergeWhile regions current' used' else (current', used'))"
    by (rule mergeWhile.simps)
qed

theorem detectRedRegions_loops_terminate_witness:
  "[(0::int, 0::int)] \<noteq> []
   \<and> findClusterStep 1 1 [200, 0, 0, 255] ([(0, 0)], {}, (0, 0, 0, 0))
       = ([(0, 1), (0, -1), (1, 0), (-1, 0)], {0}, (0, 0, 0, 0))
   \<and> mergePass [\<lparr>reg_x = 0, reg_y = 0, reg_width = 10, reg_height = 10\<rparr>,
                 \<lparr>reg_x = 5, reg_y = 5, reg_width = 10, reg_height = 10\<rparr>] [0..<2]
         (\<lparr>reg_x = 0, reg_y = 0, reg_width = 10, reg_height = 10\<rparr>, {0}, False)
       = (\<lparr>reg_x = 0, reg_y = 0, reg_width = 15, reg_height = 15\<rparr>, {0, 1}, True)
   \<and> (\<exists>j<2. j \<notin> {0::nat} \<and> j \<in> {0, 1::nat})
   \<and> (1::nat) \<notin> {0}
   \<and> (\<exists>current' used'.
         mergeOuter [\<lparr>reg_x = 0, reg_y = 0, reg_width = 10, reg_height = 10\<rparr>,
                     \<lparr>reg_x = 5, reg_y = 5, reg_width = 10, reg_height = 10\<rparr>] [1] ([], {0})
           = ([] @ [current'], used') \<and> 1 \<in> used' \<and> {0} \<subseteq> used')"
  using detectRedRegions_loops_terminate
          [of "[(0, 0)]" 1 1 "[200, 0, 0, 255]" "{}" "(0, 0, 0, 0)"
              "[\<lparr>reg_x = 0, reg_y = 0, reg_width = 10, reg_height = 10\<rparr>,
                \<lparr>reg_x = 5, reg_y = 5, reg_width = 10, reg_height = 10\<rparr>]"
              "\<lparr>reg_x = 0, reg_y = 0, reg_width = 10, reg_height = 10\<rparr>" "{0}" 1 "[]"]
  by (simp add: sample_def regionsOverlap_def mergeTwoRegions_def upt_rec insert_commute
        numeral_2_eq_2 del: mergeOuter.simps mergeWhile.simps)

section \<open>Properties of the calendar reconstructor\<close>

text \<open>Rewrite rules that evaluate the parser on a concrete fragment list.\<close>

lemmas parser_eval =
  js_def isDigit_def isWordChar_def isSpace_def trim_def parseInt_def toString_def
  digitsOf.simps padStart2_def dayMatch_def cleanEventText_def isJustANumber_def hasC_def
  matchPeriod_def matchTimeTail_def matchTimeAt_def matchAllTimes.simps removeTimes.simps
  toUpperPeriod_def normalizeHours_def extractTimeFromText_def isLeapYear_def daysIn_def
  normalizeDay.simps newDate_def compareResults_def jsSort_def sortResults_def findIndex_def
  dayYPositions_def weekRows_def assignWeekIndices_def initialMonthState_def monthRules_def
  detectMonth_def actualYearMonth_def ownTitle_def nearbyTitle_def standardTitle_def
  shiftTitle_def resolveTitle_def isDuplicate_def buildEvent_def addEvent_def
  processResult.simps parseEvents_def parseCalendarFromOCR_def createOCRResult_def
  withCalendarStructure_def Let_def

lemma index_numerals:
  "Suc (Suc (Suc (Suc (Suc 0)))) = 5"
  "Suc (Suc (Suc (Suc (Suc (Suc 0))))) = 6"
  "Suc (Suc (Suc (Suc (Suc (Suc (Suc 0)))))) = 7"
  by simp_all

text \<open>
  The model against the repository's own tests (parser.test.ts): dates and titles of the
  events, for any identifier source.
\<close>

lemma test_mixed_overflow_dates_across_weeks:
  "map (\<lambda>e. (ev_date e, ev_title e))
     (parseEvents ids
        (withCalendarStructure
           [createOCRResult ''31 Task'' 150 150, createOCRResult ''1 Work'' 200 150,
            createOCRResult ''15 Meeting'' 200 250, createOCRResult ''29 Review'' 250 350,
            createOCRResult ''1 Plan'' 300 350])
        2024 2 Standard)
   = [(\<lparr>fullYear = 2024, monthIndex = 0, dayOfMonth = 31\<rparr>, js ''Task''),
      (\<lparr>fullYear = 2024, monthIndex = 1, dayOfMonth = 1\<rparr>, js ''Work''),
      (\<lparr>fullYear = 2024, monthIndex = 1, dayOfMonth = 15\<rparr>, js ''Meeting''),
      (\<lparr>fullYear = 2024, monthIndex = 1, dayOfMonth = 29\<rparr>, js ''Review''),
      (\<lparr>fullYear = 2024, monthIndex = 2, dayOfMonth = 1\<rparr>, js ''Plan'')]"
  by (simp add: parser_eval split del: if_split cong: let_weak_cong prod.case_cong_weak)

lemma test_december_with_january_overflow:
  "map (\<lambda>e. (ev_date e, ev_title e))
     (parseEvents ids
        (withCalendarStructure
           [createOCRResult ''31 Review'' 200 350, createOCRResult ''1 Plan'' 300 350,
            createOCRResult ''2 Start'' 350 350])
        2024 12 Standard)
   = [(\<lparr>fullYear = 2024, monthIndex = 11, dayOfMonth = 31\<rparr>, js ''Review''),
      (\<lparr>fullYear = 2025, monthIndex = 0, dayOfMonth = 1\<rparr>, js ''Plan''),
      (\<lparr>fullYear = 2025, monthIndex = 0, dayOfMonth = 2\<rparr>, js ''Start'')]"
  by (simp add: parser_eval split del: if_split cong: let_weak_cong prod.case_cong_weak)

lemma test_january_with_december_overflow:
  "map (\<lambda>e. (ev_date e, ev_title e))
     (parseEvents ids
        (withCalendarStructure
           [createOCRResult ''31 Task'' 50 150, createOCRResult ''1 Work'' 100 150])
        2024 1 Standard)
   = [(\<lparr>fullYear = 2023, monthIndex = 11, dayOfMonth = 31\<rparr>, js ''Task''),
      (\<lparr>fullYear = 2024, monthIndex = 0, dayOfMonth = 1\<rparr>, js ''Work'')]"
  by (simp add: parser_eval split del: if_split cong: let_weak_cong prod.case_cong_weak)

lemma test_non_date_text_and_empty_input:
  "parseEvents ids
     (withCalendarStructure
        [createOCRResult ''Meeting at 3pm'' 200 200, createOCRResult ''Lunch'' 300 200])
     2024 2 Standard = []
   \<and> parseEvents ids [] 2024 2 Standard = []"
  by (simp add: parser_eval split del: if_split cong: let_weak_cong prod.case_cong_weak)

lemma test_single_digit_date_in_last_week:
  "map (\<lambda>e. (ev_date e, ev_title e))
     (parseEvents ids (withCalendarStructure [createOCRResult ''1 Start'' 350 350])
        2024 5 Standard)
   = [(\<lparr>fullYear = 2024, monthIndex = 5, dayOfMonth = 1\<rparr>, js ''Start'')]"
  by (simp add: parser_eval split del: if_split cong: let_weak_cong prod.case_cong_weak)

text \<open>
  What does hold of the dates, for a month from 1 to 12 and a four-digit year: every
  event is dated by \<^verbatim>\<open>new Date\<close> from a day number from 1 to 31 and the requested
  month moved by -1, 0 or +1 with the year carried; when the day exists in that month,
  that is the event's year and month.
\<close>

lemma monthRules_offset:
  "fst (monthRules dim dy wk nw st) = -1 \<or> fst (monthRules dim dy wk nw st) = 0
   \<or> fst (monthRules dim dy wk nw st) = 1"
  by (simp add: monthRules_def)

lemma detectMonth_offset:
  "fst (detectMonth dim dy wk st) = -1 \<or> fst (detectMonth dim dy wk st) = 0
   \<or> fst (detectMonth dim dy wk st) = 1"
proof -
  let ?r = "monthRules dim dy wk (wk \<noteq> currentWeek st)
              (if wk \<noteq> currentWeek st then st\<lparr>currentWeek := wk\<rparr> else st)"
  have "fst (detectMonth dim dy wk st) = fst ?r"
    by (cases ?r) (simp add: detectMonth_def)
  with monthRules_offset[of dim dy wk "wk \<noteq> currentWeek st"
          "if wk \<noteq> currentWeek st then st\<lparr>currentWeek := wk\<rparr> else st"]
  show ?thesis by simp
qed

lemma buildEvent_date: "ev_date (buildEvent i t dy m y) = newDate y (m - 1) dy"
  by (simp add: buildEvent_def split: option.splits)

lemma processResult_dated_events:
  "snd (processResult ids yr mo ct dim dw i r nx (st, ev)) = ev
   \<or> (\<exists>off dy t. (off = -1 \<or> off = 0 \<or> off = 1) \<and> 1 \<le> dy \<and> dy \<le> 31
        \<and> snd (processResult ids yr mo ct dim dw i r nx (st, ev))
          = ev @ [buildEvent (ids i) t dy (snd (actualYearMonth yr mo off))
                    (fst (actualYearMonth yr mo off))])"
proof (cases "dayMatch (ocr_text r)")
  case None
  then show ?thesis by (simp add: processResult.simps)
next
  case (Some tok)
  obtain pre digits post where tok: "tok = (pre, digits, post)" by (cases tok) auto
  show ?thesis
  proof (cases "parseInt digits < 1 \<or> parseInt digits > 31")
    case True
    with Some tok show ?thesis by (simp add: processResult.simps)
  next
    case rng: False
    show ?thesis
    proof (cases "dw i")
      case None
      with Some tok rng show ?thesis by (simp add: processResult.simps)
    next
      case (Some info)
      obtain off st' where dm: "detectMonth dim (parseInt digits) (di_weekIndex info) st = (off, st')"
        by (cases "detectMonth dim (parseInt digits) (di_weekIndex info) st") auto
      from detectMonth_offset[of dim "parseInt digits" "di_weekIndex info" st] dm
      have off: "off = -1 \<or> off = 0 \<or> off = 1" by simp
      have "snd (processResult ids yr mo ct dim dw i r nx (st, ev))
              = addEvent (ids i) (resolveTitle ct r nx pre post) (parseInt digits)
                  (actualYearMonth yr mo off) ev"
        using \<open>dayMatch (ocr_text r) = Some tok\<close> tok rng Some dm
        by (simp add: processResult.simps)
      then consider "snd (processResult ids yr mo ct dim dw i r nx (st, ev)) = ev"
        | "snd (processResult ids yr mo ct dim dw i r nx (st, ev))
             = ev @ [buildEvent (ids i) (resolveTitle ct r nx pre post) (parseInt digits)
                       (snd (actualYearMonth yr mo off)) (fst (actualYearMonth yr mo off))]"
        by (auto simp: addEvent_def split: if_splits)
      then show ?thesis
      proof cases
        case 1
        then show ?thesis by simp
      next
        case 2
        from rng have "1 \<le> parseInt digits" "parseInt digits \<le> 31" by simp_all
        with off 2 show ?thesis by blast
      qed
    qed
  qed
qed

lemma parseLoop_events_invariant:
  assumes "\<And>e. e \<in> set ev \<Longrightarrow> P e"
    and "\<And>k t dy off. off = -1 \<or> off = 0 \<or> off = 1 \<Longrightarrow> 1 \<le> dy \<Longrightarrow> dy \<le> 31 \<Longrightarrow>
           P (buildEvent (ids k) t dy (snd (actualYearMonth yr mo off))
                (fst (actualYearMonth yr mo off)))"
  shows "\<forall>e \<in> set (snd (parseLoop ids yr mo ct dim dw i rs (st, ev))). P e"
  using assms(1)
proof (induction rs arbitrary: i st ev)
  case Nil
  then show ?case by simp
next
  case (Cons r rs)
  let ?nx = "case rs of [] \<Rightarrow> None | nextResult # _ \<Rightarrow> Some nextResult"
  obtain s1 e1 where p: "processResult ids yr mo ct dim dw i r ?nx (st, ev) = (s1, e1)"
    by (cases "processResult ids yr mo ct dim dw i r ?nx (st, ev)") auto
  from processResult_dated_events[of ids yr mo ct dim dw i r ?nx st ev] p
  consider "e1 = ev"
    | off dy t where "off = -1 \<or> off = 0 \<or> off = 1" "1 \<le> dy" "dy \<le> 31"
        "e1 = ev @ [buildEvent (ids i) t dy (snd (actualYearMonth yr mo off))
                      (fst (actualYearMonth yr mo off))]"
    by auto
  then have "\<And>e. e \<in> set e1 \<Longrightarrow> P e"
  proof cases
    case 1
    fix e assume "e \<in> set e1"
    with 1 Cons.prems show "P e" by simp
  next
    case 2
    fix e assume "e \<in> set e1"
    with 2(4) have "e \<in> set ev \<or> e = buildEvent (ids i) t dy (snd (actualYearMonth yr mo off))
                      (fst (actualYearMonth yr mo off))" by auto
    with Cons.prems assms(2)[OF 2(1-3)] show "P e" by blast
  qed
  from Cons.IH[of e1 "i + 1" s1, OF this] p show ?case by simp
qed

lemma newDate_existing_day:
  assumes "1 \<le> m" "m \<le> 12" "100 \<le> y" "1 \<le> dy" "dy \<le> daysIn y (m - 1)"
  shows "newDate y (m - 1) dy = \<lparr>fullYear = y, monthIndex = m - 1, dayOfMonth = dy\<rparr>"
proof -
  have "(m - 1) div 12 = 0" "(m - 1) mod 12 = m - 1" using assms by auto
  with assms show ?thesis
    by (simp add: newDate_def normalizeDay.simps[of y "m - 1" dy])
qed

lemma actualYearMonth_range:
  assumes "1 \<le> mo" "mo \<le> 12" "off = -1 \<or> off = 0 \<or> off = 1"
  shows "1 \<le> snd (actualYearMonth yr mo off) \<and> snd (actualYearMonth yr mo off) \<le> 12
       \<and> yr - 1 \<le> fst (actualYearMonth yr mo off)"
  using assms by (auto simp: actualYearMonth_def Let_def)

lemma parseCalendarFromOCR_dates_in_target_month:
  assumes "1 \<le> mo" "mo \<le> 12" "1000 \<le> yr"
    and "parseCalendarFromOCR ids ocrResults yr mo calendarType = Inr d"
    and "e \<in> set (pcd_events d)"
    and "yr \<le> 9999"
  shows "\<exists>off dy. (off = -1 \<or> off = 0 \<or> off = 1) \<and> 1 \<le> dy \<and> dy \<le> 31
           \<and> ev_date e = newDate (fst (actualYearMonth yr mo off))
                            (snd (actualYearMonth yr mo off) - 1) dy
           \<and> (dy \<le> daysIn (fst (actualYearMonth yr mo off)) (snd (actualYearMonth yr mo off) - 1)
                \<longrightarrow> ev_date e = \<lparr>fullYear = fst (actualYearMonth yr mo off),
                                  monthIndex = snd (actualYearMonth yr mo off) - 1,
                                  dayOfMonth = dy\<rparr>)"
proof -
  from assms(4) have ev: "pcd_events d = snd (parseLoop ids yr mo calendarType
            (dayOfMonth (newDate yr mo 0)) (assignWeekIndices (sortResults ocrResults)) 0
            (sortResults ocrResults) (initialMonthState, []))"
    by (auto simp: parseCalendarFromOCR_def parseEvents_def)
  have "\<forall>e \<in> set (pcd_events d). \<exists>off dy. (off = -1 \<or> off = 0 \<or> off = 1) \<and> 1 \<le> dy \<and> dy \<le> 31
             \<and> ev_date e = newDate (fst (actualYearMonth yr mo off))
                              (snd (actualYearMonth yr mo off) - 1) dy"
    unfolding ev
  proof (rule parseLoop_events_invariant)
    fix e :: CalendarEvent
    assume "e \<in> set []"
    then show "\<exists>off dy. (off = -1 \<or> off = 0 \<or> off = 1) \<and> 1 \<le> dy \<and> dy \<le> 31
             \<and> ev_date e = newDate (fst (actualYearMonth yr mo off))
                              (snd (actualYearMonth yr mo off) - 1) dy" by simp
  next
    fix k t and dy off :: int
    assume "off = -1 \<or> off = 0 \<or> off = 1" "1 \<le> dy" "dy \<le> 31"
    then show "\<exists>off' dy'. (off' = -1 \<or> off' = 0 \<or> off' = 1) \<and> 1 \<le> dy' \<and> dy' \<le> 31
             \<and> ev_date (buildEvent (ids k) t dy (snd (actualYearMonth yr mo off))
                          (fst (actualYearMonth yr mo off)))
               = newDate (fst (actualYearMonth yr mo off'))
                              (snd (actualYearMonth yr mo off') - 1) dy'"
      unfolding buildEvent_date by blast
  qed
  with assms(5) obtain off dy where o: "off = -1 \<or> off = 0 \<or> off = 1" "1 \<le> dy" "dy \<le> 31"
    "ev_date e = newDate (fst (actualYearMonth yr mo off)) (snd (actualYearMonth yr mo off) - 1) dy"
    by blast
  from actualYearMonth_range[OF assms(1,2) o(1), of yr] assms(3)
  have r: "1 \<le> snd (actualYearMonth yr mo off)" "snd (actualYearMonth yr mo off) \<le> 12"
    "100 \<le> fst (actualYearMonth yr mo off)" by auto
  have "dy \<le> daysIn (fst (actualYearMonth yr mo off)) (snd (actualYearMonth yr mo off) - 1)
          \<longrightarrow> ev_date e = \<lparr>fullYear = fst (actualYearMonth yr mo off),
                            monthIndex = snd (actualYearMonth yr mo off) - 1, dayOfMonth = dy\<rparr>"
    using newDate_existing_day[OF r o(2)] o(4) by simp
  with o show ?thesis by blast
qed
text \<open>
  Claim C2 (month-offset bound): every event's (year, month) should be the requested pair
  or one of its two neighbours.  The offset is applied to the month, but the day is
  handed to \<^verbatim>\<open>new Date(actualYear, actualMonth - 1, day)\<close> unchecked, and a day the
  month does not have is carried into the month after it.  A January 2024 request whose
  last row reads 1, 29, 30: the day 30 continues the next-month run started by the 1
  (offset +1, February), February 2024 has 29 days, and the event is dated 1 March 2024,
  two months after the request.
\<close>

theorem parseCalendarFromOCR_january_day_30_dated_march:
  "parseCalendarFromOCR ids
     (withCalendarStructure
        [createOCRResult ''1 Plan'' 100 350, createOCRResult ''29 Review'' 200 350,
         createOCRResult ''30 Call'' 300 350])
     2024 1 Standard
   = Inr \<lparr>pcd_year = 2024, pcd_month = 1,
          pcd_events =
            [\<lparr>ev_id = eventId (ids 5) 1 2 2024, ev_title = js ''Plan'',
              ev_date = \<lparr>fullYear = 2024, monthIndex = 1, dayOfMonth = 1\<rparr>,
              ev_startTime = None, ev_endTime = None\<rparr>,
             \<lparr>ev_id = eventId (ids 6) 29 1 2024, ev_title = js ''Review'',
              ev_date = \<lparr>fullYear = 2024, monthIndex = 0, dayOfMonth = 29\<rparr>,
              ev_startTime = None, ev_endTime = None\<rparr>,
             \<lparr>ev_id = eventId (ids 7) 30 2 2024, ev_title = js ''Call'',
              ev_date = \<lparr>fullYear = 2024, monthIndex = 2, dayOfMonth = 1\<rparr>,
              ev_startTime = None, ev_endTime = None\<rparr>]\<rparr>"
  by (simp add: parser_eval index_numerals split del: if_split
        cong: let_weak_cong prod.case_cong_weak)

text \<open>
  Claim C3 (contract check on the month), as stated: a month outside 1 to 12 is rejected
  with an error.  The function validates nothing; called with month 13 it returns a
  result like for any other month.
\<close>

theorem parseCalendarFromOCR_month_13_returns:
  "parseCalendarFromOCR sampleIds [] 2024 13 Standard
   = Inr \<lparr>pcd_year = 2024, pcd_month = 13, pcd_events = []\<rparr>"
  by (simp add: parser_eval split del: if_split)

text \<open>
  Claim C3, amended: no call fails, whatever the month and the fragments; the year and
  the month are handed back as given.
\<close>

theorem parseCalendarFromOCR_never_fails:
  "\<exists>d. parseCalendarFromOCR ids ocrResults yr mo calendarType = Inr d
       \<and> pcd_year d = yr \<and> pcd_month d = mo"
  by (simp add: parseCalendarFromOCR_def)

text \<open>
  Claim C6 (first-row overflow, February 2024, standard mode): \<open>"31 Task"\<close> in row 0 with
  no earlier day is dated 31 January 2024 and titled \<open>"Task"\<close>; \<open>"1 Work"\<close> right after
  it in the same row is dated 1 February 2024.  The two fragments may sit anywhere on a
  common row, the second not left of the first.
\<close>

theorem parseCalendarFromOCR_february_first_row:
  assumes "x1 \<le> x2"
  shows "parseCalendarFromOCR ids
     [\<lparr>ocr_text = js ''31 Task'',
       ocr_region = \<lparr>reg_x = x1, reg_y = y0, reg_width = w1, reg_height = h1\<rparr>,
       ocr_confidence = c1\<rparr>,
      \<lparr>ocr_text = js ''1 Work'',
       ocr_region = \<lparr>reg_x = x2, reg_y = y0, reg_width = w2, reg_height = h2\<rparr>,
       ocr_confidence = c2\<rparr>]
     2024 2 Standard
   = Inr \<lparr>pcd_year = 2024, pcd_month = 2,
          pcd_events =
            [\<lparr>ev_id = eventId (ids 0) 31 1 2024, ev_title = js ''Task'',
              ev_date = \<lparr>fullYear = 2024, monthIndex = 0, dayOfMonth = 31\<rparr>,
              ev_startTime = None, ev_endTime = None\<rparr>,
             \<lparr>ev_id = eventId (ids 1) 1 2 2024, ev_title = js ''Work'',
              ev_date = \<lparr>fullYear = 2024, monthIndex = 1, dayOfMonth = 1\<rparr>,
              ev_startTime = None, ev_endTime = None\<rparr>]\<rparr>"
  using assms
  by (simp add: parser_eval split del: if_split cong: let_weak_cong prod.case_cong_weak)

theorem parseCalendarFromOCR_february_first_row_witness:
  "(100::int) \<le> 150
   \<and> parseCalendarFromOCR sampleIds
       [createOCRResult ''31 Task'' 100 150, createOCRResult ''1 Work'' 150 150]
       2024 2 Standard
     = Inr \<lparr>pcd_year = 2024, pcd_month = 2,
            pcd_events =
              [\<lparr>ev_id = eventId (sampleIds 0) 31 1 2024, ev_title = js ''Task'',
                ev_date = \<lparr>fullYear = 2024, monthIndex = 0, dayOfMonth = 31\<rparr>,
                ev_startTime = None, ev_endTime = None\<rparr>,
               \<lparr>ev_id = eventId (sampleIds 1) 1 2 2024, ev_title = js ''Work'',
                ev_date = \<lparr>fullYear = 2024, monthIndex = 1, dayOfMonth = 1\<rparr>,
                ev_startTime = None, ev_endTime = None\<rparr>]\<rparr>"
  using parseCalendarFromOCR_february_first_row
          [of 100 150 sampleIds 150 50 50 90 50 50 90]
  by (simp add: createOCRResult_def)

text \<open>The third rule of the chain fires whenever its condition holds: the two rules
  before it need row 0.\<close>

lemma tail_rollover_rule:
  "3 \<le> weekIndex \<Longrightarrow> 25 \<le> lastDay st \<Longrightarrow> day \<le> 5
     \<Longrightarrow> fst (detectMonth daysInMonth day weekIndex st) = 1"
  by (simp add: detectMonth_def monthRules_def)

lemma index_numeral_4: "Suc (Suc (Suc (Suc 0))) = 4"
  by simp

lemma detectMonth_lastDay: "lastDay (snd (detectMonth daysInMonth day weekIndex st)) = day"
  by (simp add: detectMonth_def split: prod.splits)

text \<open>
  Claim C7 (tail rollover, February 2024): with the six calendar rows present,
  \<open>"29 Review"\<close> and then \<open>"1 Plan"\<close> on the row of week index 4 are dated
  29 February 2024 and 1 March 2024; so are \<open>"25 Review"\<close> and \<open>"1 Plan"\<close> on the row of
  week index 3 (25 February and 1 March), where no other rule gives the next month.  The
  rule behind it: the tracker remembers every day it processes as the previous day, and in
  a row of index 3 or more a day of at most 5 after a previous day of at least 25 belongs
  to the next month, whatever the rest of the tracker state; hence a day of at most 5
  processed in such a row right after a day of at least 25 is in the next month.
\<close>

theorem parseCalendarFromOCR_february_tail_rollover:
  "parseCalendarFromOCR ids
     (withCalendarStructure
        [createOCRResult ''29 Review'' 250 350, createOCRResult ''1 Plan'' 300 350])
     2024 2 Standard
   = Inr \<lparr>pcd_year = 2024, pcd_month = 2,
          pcd_events =
            [\<lparr>ev_id = eventId (ids 5) 29 2 2024, ev_title = js ''Review'',
              ev_date = \<lparr>fullYear = 2024, monthIndex = 1, dayOfMonth = 29\<rparr>,
              ev_startTime = None, ev_endTime = None\<rparr>,
             \<lparr>ev_id = eventId (ids 6) 1 3 2024, ev_title = js ''Plan'',
              ev_date = \<lparr>fullYear = 2024, monthIndex = 2, dayOfMonth = 1\<rparr>,
              ev_startTime = None, ev_endTime = None\<rparr>]\<rparr>
   \<and> parseCalendarFromOCR ids
     (withCalendarStructure
        [createOCRResult ''25 Review'' 250 300, createOCRResult ''1 Plan'' 300 300])
     2024 2 Standard
   = Inr \<lparr>pcd_year = 2024, pcd_month = 2,
          pcd_events =
            [\<lparr>ev_id = eventId (ids 4) 25 2 2024, ev_title = js ''Review'',
              ev_date = \<lparr>fullYear = 2024, monthIndex = 1, dayOfMonth = 25\<rparr>,
              ev_startTime = None, ev_endTime = None\<rparr>,
             \<lparr>ev_id = eventId (ids 5) 1 3 2024, ev_title = js ''Plan'',
              ev_date = \<lparr>fullYear = 2024, monthIndex = 2, dayOfMonth = 1\<rparr>,
              ev_startTime = None, ev_endTime = None\<rparr>]\<rparr>
   \<and> lastDay (snd (detectMonth daysInMonth day weekIndex st)) = day
   \<and> (3 \<le> weekIndex \<and> 25 \<le> lastDay st \<and> day \<le> 5
        \<longrightarrow> fst (detectMonth daysInMonth day weekIndex st) = 1
            \<and> isInNextMonth (snd (detectMonth daysInMonth day weekIndex st)))
   \<and> (3 \<le> weekIndex \<and> 25 \<le> previousDay \<and> day \<le> 5
        \<longrightarrow> fst (detectMonth daysInMonth day weekIndex
                   (snd (detectMonth daysInMonth previousDay previousWeek st))) = 1)"
proof (intro conjI impI)
  show "parseCalendarFromOCR ids
     (withCalendarStructure
        [createOCRResult ''29 Review'' 250 350, createOCRResult ''1 Plan'' 300 350])
     2024 2 Standard
   = Inr \<lparr>pcd_year = 2024, pcd_month = 2,
          pcd_events =
            [\<lparr>ev_id = eventId (ids 5) 29 2 2024, ev_title = js ''Review'',
              ev_date = \<lparr>fullYear = 2024, monthIndex = 1, dayOfMonth = 29\<rparr>,
              ev_startTime = None, ev_endTime = None\<rparr>,
             \<lparr>ev_id = eventId (ids 6) 1 3 2024, ev_title = js ''Plan'',
              ev_date = \<lparr>fullYear = 2024, monthIndex = 2, dayOfMonth = 1\<rparr>,
              ev_startTime = None, ev_endTime = None\<rparr>]\<rparr>"
    by (simp add: parser_eval index_numerals split del: if_split
          cong: let_weak_cong prod.case_cong_weak)
next
  show "parseCalendarFromOCR ids
     (withCalendarStructure
        [createOCRResult ''25 Review'' 250 300, createOCRResult ''1 Plan'' 300 300])
     2024 2 Standard
   = Inr \<lparr>pcd_year = 2024, pcd_month = 2,
          pcd_events =
            [\<lparr>ev_id = eventId (ids 4) 25 2 2024, ev_title = js ''Review'',
              ev_date = \<lparr>fullYear = 2024, monthIndex = 1, dayOfMonth = 25\<rparr>,
              ev_startTime = None, ev_endTime = None\<rparr>,
             \<lparr>ev_id = eventId (ids 5) 1 3 2024, ev_title = js ''Plan'',
              ev_date = \<lparr>fullYear = 2024, monthIndex = 2, dayOfMonth = 1\<rparr>,
              ev_startTime = None, ev_endTime = None\<rparr>]\<rparr>"
    by (simp add: parser_eval index_numerals index_numeral_4 split del: if_split
          cong: let_weak_cong prod.case_cong_weak)
next
  show "lastDay (snd (detectMonth daysInMonth day weekIndex st)) = day"
    by (rule detectMonth_lastDay)
next
  assume "3 \<le> weekIndex \<and> 25 \<le> lastDay st \<and> day \<le> 5"
  then show "fst (detectMonth daysInMonth day weekIndex st) = 1"
    "isInNextMonth (snd (detectMonth daysInMonth day weekIndex st))"
    by (simp_all add: detectMonth_def monthRules_def)
next
  assume "3 \<le> weekIndex \<and> 25 \<le> previousDay \<and> day \<le> 5"
  then show "fst (detectMonth daysInMonth day weekIndex
                   (snd (detectMonth daysInMonth previousDay previousWeek st))) = 1"
    using tail_rollover_rule[of weekIndex
            "snd (detectMonth daysInMonth previousDay previousWeek st)" day daysInMonth]
    by (simp add: detectMonth_lastDay)
qed

theorem parseCalendarFromOCR_february_tail_rollover_witness:
  "lastDay (snd (detectMonth 29 29 4 initialMonthState)) = 29
   \<and> (3::int) \<le> 4 \<and> (25::int) \<le> lastDay (initialMonthState\<lparr>lastDay := 29\<rparr>) \<and> (1::int) \<le> 5
   \<and> fst (detectMonth 29 1 4 (initialMonthState\<lparr>lastDay := 29\<rparr>)) = 1
   \<and> isInNextMonth (snd (detectMonth 29 1 4 (initialMonthState\<lparr>lastDay := 29\<rparr>)))
   \<and> (3::int) \<le> 3 \<and> (25::int) \<le> 25
   \<and> fst (detectMonth 29 1 3 (snd (detectMonth 29 25 3 initialMonthState))) = 1"
proof -
  note inst = parseCalendarFromOCR_february_tail_rollover
      [where ids = sampleIds and daysInMonth = 29 and day = 1 and weekIndex = 4
         and st = "initialMonthState\<lparr>lastDay := 29\<rparr>"]
  note row3 = parseCalendarFromOCR_february_tail_rollover
      [where ids = sampleIds and daysInMonth = 29 and day = 1 and weekIndex = 3
         and previousDay = 25 and previousWeek = 3 and st = initialMonthState]
  note last = parseCalendarFromOCR_february_tail_rollover
      [where ids = sampleIds and daysInMonth = 29 and day = 29 and weekIndex = 4
         and st = initialMonthState]
  have h1: "(3::int) \<le> 4 \<and> 25 \<le> lastDay (initialMonthState\<lparr>lastDay := 29\<rparr>) \<and> (1::int) \<le> 5"
    by (simp add: initialMonthState_def)
  have h2: "(3::int) \<le> 3 \<and> (25::int) \<le> 25 \<and> (1::int) \<le> 5" by simp
  note c0 = last[THEN conjunct2, THEN conjunct2, THEN conjunct1]
  note c1 = inst[THEN conjunct2, THEN conjunct2, THEN conjunct2, THEN conjunct1, THEN mp, OF h1]
  note c2 = row3[THEN conjunct2, THEN conjunct2, THEN conjunct2, THEN conjunct2, THEN mp, OF h2]
  from c0 c1 c2 h1 show ?thesis by simp
qed

text \<open>Unfolding the two scans over a title, and the shape of a match.\<close>

lemma matchTimeAt_shape:
  assumes "matchTimeAt t = Some (h, mm, p, rest)"
  shows "(length h = 1 \<or> length h = 2) \<and> list_all isDigit h
       \<and> length mm = 2 \<and> list_all isDigit mm
       \<and> (p = None \<or> (\<exists>a m. p = Some [a, m] \<and> (a = 65 \<or> a = 97 \<or> a = 80 \<or> a = 112)
                                  \<and> (m = 77 \<or> m = 109)))"
  using assms
  by (auto simp: matchTimeAt_def matchTimeTail_def matchPeriod_def
           split: list.splits if_splits prod.splits)

lemma matchAllTimes_Nil: "matchAllTimes [] = []"
  by (simp add: matchAllTimes.simps[of "[]"] matchTimeAt_def)

lemma matchAllTimes_None:
  "matchTimeAt (c # cs) = None \<Longrightarrow> matchAllTimes (c # cs) = matchAllTimes cs"
  by (simp add: matchAllTimes.simps[of "c # cs"])

lemma matchAllTimes_Some:
  "matchTimeAt t = Some (h, m, p, rest) \<Longrightarrow> matchAllTimes t = (h, m, p) # matchAllTimes rest"
  by (simp add: matchAllTimes.simps[of t])

lemma removeTimes_Nil: "removeTimes [] = []"
  by (simp add: removeTimes.simps[of "[]"] matchTimeAt_def)

lemma removeTimes_None:
  "matchTimeAt (c # cs) = None \<Longrightarrow> removeTimes (c # cs) = c # removeTimes cs"
  by (simp add: removeTimes.simps[of "c # cs"])

lemma removeTimes_Some:
  "matchTimeAt t = Some (h, m, p, rest) \<Longrightarrow> removeTimes t = removeTimes rest"
  by (simp add: removeTimes.simps[of t])

lemma matchAllTimes_shape:
  "(h, mm, p) \<in> set (matchAllTimes t) \<Longrightarrow>
     (length h = 1 \<or> length h = 2) \<and> list_all isDigit h
       \<and> length mm = 2 \<and> list_all isDigit mm
       \<and> (p = None \<or> (\<exists>a m. p = Some [a, m] \<and> (a = 65 \<or> a = 97 \<or> a = 80 \<or> a = 112)
                                  \<and> (m = 77 \<or> m = 109)))"
proof (induction t rule: matchAllTimes.induct)
  case (1 t)
  show ?case
  proof (cases "matchTimeAt t")
    case None
    show ?thesis
    proof (cases t)
      case Nil
      with 1(3) show ?thesis by (simp add: matchAllTimes_Nil)
    next
      case (Cons c cs)
      with None 1(3) have "(h, mm, p) \<in> set (matchAllTimes cs)"
        by (simp add: matchAllTimes_None)
      from 1(1)[OF None Cons this] show ?thesis .
    qed
  next
    case (Some r)
    obtain h' m' p' rest where r: "r = (h', m', p', rest)" by (cases r) auto
    from Some r 1(3) have "(h, mm, p) = (h', m', p') \<or> (h, mm, p) \<in> set (matchAllTimes rest)"
      by (simp add: matchAllTimes_Some)
    then show ?thesis
    proof
      assume "(h, mm, p) = (h', m', p')"
      with Some r have "matchTimeAt t = Some (h, mm, p, rest)" by simp
      then show ?thesis by (rule matchTimeAt_shape)
    next
      assume "(h, mm, p) \<in> set (matchAllTimes rest)"
      from 1(2)[OF Some[unfolded r] refl refl refl this] show ?thesis .
    qed
  qed
qed

lemma removeTimes_no_match: "matchAllTimes t = [] \<Longrightarrow> removeTimes t = t"
proof (induction t)
  case Nil
  then show ?case by (simp add: removeTimes_Nil)
next
  case (Cons c cs)
  have n: "matchTimeAt (c # cs) = None"
  proof (cases "matchTimeAt (c # cs)")
    case None
    then show ?thesis .
  next
    case (Some r)
    obtain h' m' p' rest where "r = (h', m', p', rest)" by (cases r) auto
    with Some Cons.prems show ?thesis by (simp add: matchAllTimes_Some)
  qed
  with Cons.prems have "matchAllTimes cs = []" by (simp add: matchAllTimes_None)
  from Cons.IH[OF this] n show ?case by (simp add: removeTimes_None)
qed

lemma js_PM: "js ''PM'' = [80, 77]" and js_AM: "js ''AM'' = [65, 77]"
  by (simp_all add: js_def)

lemma normalizeHours_cases:
  "normalizeHours (Some [80, 77]) hrs = (if hrs = 12 then 12 else hrs + 12)"
  "normalizeHours (Some [65, 77]) hrs = (if hrs = 12 then 0 else hrs)"
  "normalizeHours None hrs = hrs"
  by (simp_all add: normalizeHours_def js_PM js_AM)

lemma toUpperPeriod_cases:
  "(a = 80 \<or> a = 112) \<and> (m = 77 \<or> m = 109) \<Longrightarrow> toUpperPeriod [a, m] = [80, 77]"
  "(a = 65 \<or> a = 97) \<and> (m = 77 \<or> m = 109) \<Longrightarrow> toUpperPeriod [a, m] = [65, 77]"
  by (auto simp: toUpperPeriod_def)

lemma formatTime_pm:
  "(a = 80 \<or> a = 112) \<and> (m = 77 \<or> m = 109) \<Longrightarrow>
     formatTime (h, mm, Some [a, m]) =
       padStart2 (toString (if parseInt h = 12 then 12 else parseInt h + 12)) @ js '':'' @ mm"
  by (simp only: formatTime.simps option.map toUpperPeriod_cases normalizeHours_cases)

lemma formatTime_am:
  "(a = 65 \<or> a = 97) \<and> (m = 77 \<or> m = 109) \<Longrightarrow>
     formatTime (h, mm, Some [a, m]) =
       padStart2 (toString (if parseInt h = 12 then 0 else parseInt h)) @ js '':'' @ mm"
  by (simp only: formatTime.simps option.map toUpperPeriod_cases normalizeHours_cases)

lemma formatTime_plain:
  "formatTime (h, mm, None) = padStart2 (toString (parseInt h)) @ js '':'' @ mm"
  by (simp only: formatTime.simps option.map normalizeHours_cases)

lemma extractTimeFromText_matches:
  "extractTimeFromText t =
     (case matchAllTimes t of
        [] \<Rightarrow> None
      | m1 # ms \<Rightarrow> Some (formatTime m1, (case ms of [] \<Rightarrow> None | m2 # _ \<Rightarrow> Some (formatTime m2))))"
  by (simp add: extractTimeFromText_def split: list.splits)

lemma buildEvent_title:
  "ev_title (buildEvent i t d mo yr) = (if matchAllTimes t = [] then t else trim (removeTimes t))"
  by (simp add: buildEvent_def extractTimeFromText_def split: list.splits)

lemma buildEvent_times:
  "ev_startTime (buildEvent i t d mo yr) = map_option fst (extractTimeFromText t)
   \<and> ev_endTime (buildEvent i t d mo yr) = (case extractTimeFromText t of None \<Rightarrow> None | Some (s, e) \<Rightarrow> e)"
  by (simp add: buildEvent_def split: option.splits)

lemma padStart2_toString_two_digits:
  assumes "0 \<le> n" "n < 100"
  shows "padStart2 (toString n) = [48 + nat n div 10, 48 + nat n mod 10]"
proof (cases "nat n < 10")
  case True
  with assms show ?thesis
    by (simp add: padStart2_def toString_def digitsOf.simps[of "nat n"])
next
  case False
  with assms have "nat n div 10 < 10" by simp
  with False assms show ?thesis
    by (simp add: padStart2_def toString_def digitsOf.simps[of "nat n"]
          digitsOf.simps[of "nat n div 10"])
qed

lemma parseInt_two_digits:
  assumes "length h = 1 \<or> length h = 2" "list_all isDigit h"
  shows "0 \<le> parseInt h \<and> parseInt h \<le> 99"
proof -
  from assms(1) consider a where "h = [a]" | a b where "h = [a, b]"
    by (cases h; cases "tl h"; cases "tl (tl h)") auto
  then show ?thesis
  proof cases
    case 1
    with assms(2) show ?thesis by (simp add: parseInt_def isDigit_def)
  next
    case 2
    with assms(2) show ?thesis by (simp add: parseInt_def isDigit_def)
  qed
qed
lemma meeting_matches:
  "matchAllTimes (js ''Meeting 9:00 AM 10:30 AM'')
   = [(js ''9'', js ''00'', Some (js ''AM'')), (js ''10'', js ''30'', Some (js ''AM''))]"
  by (simp add: matchAllTimes.simps matchTimeAt_def matchTimeTail_def matchPeriod_def js_def
        isDigit_def isSpace_def split del: if_split)

lemma meeting_times:
  "extractTimeFromText (js ''Meeting 9:00 AM 10:30 AM'') = Some (js ''09:00'', Some (js ''10:30''))"
  by (simp add: extractTimeFromText_def meeting_matches)
     (simp add: js_def normalizeHours_def toUpperPeriod_def parseInt_def padStart2_def
        toString_def digitsOf.simps split del: if_split)

lemma meeting_title:
  "trim (removeTimes (js ''Meeting 9:00 AM 10:30 AM'')) = js ''Meeting''"
  by (simp add: removeTimes.simps matchTimeAt_def matchTimeTail_def trim_def
        matchPeriod_def js_def isDigit_def isSpace_def split del: if_split)

text \<open>
  A match of the time pattern at the start of a text, from the text and back; the leftmost
  match and the scan that continues behind it; the range of a formatted time.
\<close>

lemma periods_set:
  "q \<in> set (amTexts @ pmTexts) \<longleftrightarrow>
     (\<exists>a m. q = [a, m] \<and> (a = 65 \<or> a = 97 \<or> a = 80 \<or> a = 112) \<and> (m = 77 \<or> m = 109))"
  by (auto simp: amTexts_def pmTexts_def js_def)

lemma pm_set:
  "q \<in> set pmTexts \<longleftrightarrow> (\<exists>a m. q = [a, m] \<and> (a = 80 \<or> a = 112) \<and> (m = 77 \<or> m = 109))"
  by (auto simp: pmTexts_def js_def)

lemma am_set:
  "q \<in> set amTexts \<longleftrightarrow> (\<exists>a m. q = [a, m] \<and> (a = 65 \<or> a = 97) \<and> (m = 77 \<or> m = 109))"
  by (auto simp: amTexts_def js_def)

lemma js_colon: "js '':'' = [58]"
  by (simp add: js_def)

lemma hour_digits_cases:
  assumes "length h = 1 \<or> length h = 2" "list_all isDigit h"
  obtains a where "h = [a]" "isDigit a" | a b where "h = [a, b]" "isDigit a" "isDigit b"
proof -
  from assms(1) consider a where "h = [a]" | a b where "h = [a, b]"
    by (cases h; cases "tl h"; cases "tl (tl h)") auto
  then show thesis using assms(2) that by cases auto
qed

lemma minute_digits_cases:
  assumes "length mm = 2" "list_all isDigit mm"
  obtains c d where "mm = [c, d]" "isDigit c" "isDigit d"
proof -
  from assms(1) obtain c d where "mm = [c, d]"
    by (cases mm; cases "tl mm"; cases "tl (tl mm)") auto
  then show thesis using assms(2) that by auto
qed

lemma matchTimeAt_tail:
  assumes "length h = 1 \<or> length h = 2" "list_all isDigit h"
    "length mm = 2" "list_all isDigit mm"
  shows "matchTimeAt (h @ js '':'' @ mm @ t)
         = (case matchPeriod (dropWhile isSpace t) of (p, rest) \<Rightarrow> Some (h, mm, p, rest))"
proof -
  from assms(3,4) obtain c d where mm: "mm = [c, d]" "isDigit c" "isDigit d"
    by (rule minute_digits_cases)
  from assms(1,2) show ?thesis
  proof (cases rule: hour_digits_cases)
    case (1 a)
    have "\<not> isDigit 58" by (simp add: isDigit_def)
    with 1 mm show ?thesis
      by (simp add: matchTimeAt_def matchTimeTail_def js_colon)
  next
    case (2 a b)
    with mm show ?thesis
      by (simp add: matchTimeAt_def matchTimeTail_def js_colon)
  qed
qed

lemma not_space_period: "q \<in> set (amTexts @ pmTexts) \<Longrightarrow> \<not> isSpace (hd q) \<and> q \<noteq> []"
  by (auto simp: am_set pm_set isSpace_def)

lemma dropWhile_spaces:
  "list_all isSpace ws \<Longrightarrow> dropWhile isSpace (ws @ t) = dropWhile isSpace t"
  by (induction ws) auto

lemma matchPeriod_period:
  "q \<in> set (amTexts @ pmTexts) \<Longrightarrow> matchPeriod (q @ rest) = (Some q, rest)"
  by (auto simp: am_set pm_set matchPeriod_def)

lemma matchTimeAt_with_period:
  assumes "length h = 1 \<or> length h = 2" "list_all isDigit h"
    "length mm = 2" "list_all isDigit mm" "list_all isSpace ws" "q \<in> set (amTexts @ pmTexts)"
  shows "matchTimeAt (h @ js '':'' @ mm @ ws @ q @ rest) = Some (h, mm, Some q, rest)"
proof -
  from not_space_period[OF assms(6)] have "dropWhile isSpace (q @ rest) = q @ rest"
    by (cases q) auto
  with assms(5) have "dropWhile isSpace (ws @ q @ rest) = q @ rest"
    by (simp add: dropWhile_spaces)
  with matchTimeAt_tail[OF assms(1-4), of "ws @ q @ rest"] matchPeriod_period[OF assms(6), of rest]
  show ?thesis by simp
qed

lemma matchPeriod_none:
  "take 2 rest \<notin> set (amTexts @ pmTexts) \<Longrightarrow> matchPeriod rest = (None, rest)"
  by (auto simp: am_set pm_set matchPeriod_def split: list.splits)

lemma matchTimeAt_without_period:
  assumes "length h = 1 \<or> length h = 2" "list_all isDigit h"
    "length mm = 2" "list_all isDigit mm" "list_all isSpace ws"
    "dropWhile isSpace rest = rest" "take 2 rest \<notin> set (amTexts @ pmTexts)"
  shows "matchTimeAt (h @ js '':'' @ mm @ ws @ rest) = Some (h, mm, None, rest)"
proof -
  from assms(5,6) have "dropWhile isSpace (ws @ rest) = rest"
    by (simp add: dropWhile_spaces)
  with matchTimeAt_tail[OF assms(1-4), of "ws @ rest"] matchPeriod_none[OF assms(7)]
  show ?thesis by simp
qed

lemma matchPeriod_text:
  "matchPeriod t = (p, rest) \<Longrightarrow>
     t = periodText p @ rest \<and> (p = None \<or> (\<exists>q. p = Some q \<and> q \<in> set (amTexts @ pmTexts)))"
  by (auto simp: matchPeriod_def periodText_def am_set pm_set split: list.splits if_splits)

lemma matchTimeAt_text:
  assumes "matchTimeAt t = Some (h, mm, p, rest)"
  shows "(length h = 1 \<or> length h = 2) \<and> list_all isDigit h
       \<and> length mm = 2 \<and> list_all isDigit mm
       \<and> (p = None \<or> (\<exists>q. p = Some q \<and> q \<in> set (amTexts @ pmTexts)))
       \<and> (\<exists>ws. list_all isSpace ws \<and> t = h @ js '':'' @ mm @ ws @ periodText p @ rest)"
proof -
  from assms obtain r0 where
    sh: "(length h = 1 \<or> length h = 2) \<and> list_all isDigit h \<and> length mm = 2 \<and> list_all isDigit mm"
    and t: "t = h @ js '':'' @ mm @ r0" and mp: "matchPeriod (dropWhile isSpace r0) = (p, rest)"
    by (auto simp: matchTimeAt_def matchTimeTail_def js_colon
          split: list.splits if_splits prod.splits)
  from matchPeriod_text[OF mp]
  have d: "dropWhile isSpace r0 = periodText p @ rest"
    and p: "p = None \<or> (\<exists>q. p = Some q \<and> q \<in> set (amTexts @ pmTexts))" by blast+
  have "r0 = takeWhile isSpace r0 @ dropWhile isSpace r0" by simp
  with d have "r0 = takeWhile isSpace r0 @ periodText p @ rest" by simp
  moreover have "list_all isSpace (takeWhile isSpace r0)"
    by (simp add: list_all_iff) (meson set_takeWhileD)
  ultimately have "\<exists>ws. list_all isSpace ws \<and> t = h @ js '':'' @ mm @ ws @ periodText p @ rest"
    using t by blast
  with sh p show ?thesis by blast
qed

lemma matchAllTimes_leftmost:
  assumes "\<forall>k<n. matchTimeAt (drop k t) = None" "matchTimeAt (drop n t) = Some (h, mm, p, rest)"
  shows "matchAllTimes t = (h, mm, p) # matchAllTimes rest
       \<and> removeTimes t = take n t @ removeTimes rest"
  using assms
proof (induction n arbitrary: t)
  case 0
  then show ?case by (simp add: matchAllTimes_Some removeTimes_Some)
next
  case (Suc n)
  from Suc.prems(1) have n0: "matchTimeAt t = None" by (metis drop0 zero_less_Suc)
  have "t \<noteq> []" using Suc.prems(2) by (auto simp: matchTimeAt_def)
  then obtain c cs where t: "t = c # cs" by (cases t) auto
  from Suc.prems(1) t have "\<forall>k<n. matchTimeAt (drop k cs) = None"
    by (metis Suc_less_eq drop_Suc_Cons)
  moreover from Suc.prems(2) t have "matchTimeAt (drop n cs) = Some (h, mm, p, rest)" by simp
  ultimately have "matchAllTimes cs = (h, mm, p) # matchAllTimes rest
       \<and> removeTimes cs = take n cs @ removeTimes rest" by (rule Suc.IH)
  with n0 t show ?case by (simp add: matchAllTimes_None removeTimes_None)
qed

lemma matchAllTimes_no_match:
  assumes "\<forall>k<length t. matchTimeAt (drop k t) = None"
  shows "matchAllTimes t = [] \<and> removeTimes t = t"
  using assms
proof (induction t)
  case Nil
  then show ?case by (simp add: matchAllTimes_Nil removeTimes_Nil)
next
  case (Cons c cs)
  from Cons.prems have n0: "matchTimeAt (c # cs) = None" by (metis drop0 length_greater_0_conv list.discI)
  from Cons.prems have "\<forall>k<length cs. matchTimeAt (drop k cs) = None"
    by (metis Suc_less_eq drop_Suc_Cons length_Cons)
  then have "matchAllTimes cs = [] \<and> removeTimes cs = cs" by (rule Cons.IH)
  with n0 show ?case by (simp add: matchAllTimes_None removeTimes_None)
qed

lemma parseInt_pair: "parseInt [a, b] = 10 * (int a - 48) + (int b - 48)"
  by (simp add: parseInt_def)

lemma isTime24_formatTime:
  assumes "length h = 1 \<or> length h = 2" "list_all isDigit h"
    "length mm = 2" "list_all isDigit mm" "parseInt mm \<le> 59"
    "case p of None \<Rightarrow> parseInt h \<le> 23
             | Some q \<Rightarrow> q \<in> set (amTexts @ pmTexts) \<and> 1 \<le> parseInt h \<and> parseInt h \<le> 12"
  shows "isTime24 (formatTime (h, mm, p))"
proof -
  from assms(3,4) obtain c d where mm: "mm = [c, d]" "isDigit c" "isDigit d"
    by (rule minute_digits_cases)
  from parseInt_two_digits[OF assms(1,2)] have h0: "0 \<le> parseInt h" by simp
  define n where "n = normalizeHours (map_option toUpperPeriod p) (parseInt h)"
  have n: "0 \<le> n \<and> n \<le> 23"
  proof (cases p)
    case None
    with assms(6) h0 show ?thesis by (simp add: n_def normalizeHours_cases)
  next
    case (Some q)
    with assms(6) have q: "q \<in> set amTexts \<or> q \<in> set pmTexts"
      and r: "1 \<le> parseInt h" "parseInt h \<le> 12" by auto
    from q show ?thesis
    proof
      assume "q \<in> set amTexts"
      then obtain a m where "q = [a, m]" "(a = 65 \<or> a = 97) \<and> (m = 77 \<or> m = 109)"
        by (auto simp: am_set)
      with Some r show ?thesis
        by (simp add: n_def toUpperPeriod_cases(2) normalizeHours_cases)
    next
      assume "q \<in> set pmTexts"
      then obtain a m where "q = [a, m]" "(a = 80 \<or> a = 112) \<and> (m = 77 \<or> m = 109)"
        by (auto simp: pm_set)
      with Some r show ?thesis
        by (simp add: n_def toUpperPeriod_cases(1) normalizeHours_cases)
    qed
  qed
  then have pad: "padStart2 (toString n) = [48 + nat n div 10, 48 + nat n mod 10]"
    by (intro padStart2_toString_two_digits) auto
  have f: "formatTime (h, mm, p) = [48 + nat n div 10, 48 + nat n mod 10, 58, c, d]"
    by (simp add: n_def[symmetric] pad mm js_colon)
  have d1: "nat n div 10 \<le> 2" using n by auto
  have "int (nat n div 10) * 10 + int (nat n mod 10) = n"
    using n by (simp add: zdiv_int zmod_int)
  then have v: "parseInt [48 + nat n div 10, 48 + nat n mod 10] = n"
    by (simp add: parseInt_pair)
  from assms(5) mm have m59: "parseInt [c, d] \<le> 59" by simp
  have d2: "nat n mod 10 \<le> 9" by simp
  show ?thesis
    unfolding f using d1 d2 v n mm(2,3) m59
    by (simp add: isTime24_def isDigit_def)
qed

lemma lunch_event:
  "buildEvent i (js ''Lunch 12:30 pm with Bob 1:15 PM today'') d mo yr
   = \<lparr>ev_id = eventId i d mo yr, ev_title = js ''Lunch  with Bob  today'',
      ev_date = newDate yr (mo - 1) d,
      ev_startTime = Some (js ''12:30''), ev_endTime = Some (js ''13:15'')\<rparr>"
  by (simp add: buildEvent_def extractTimeFromText_def matchAllTimes.simps removeTimes.simps
        matchTimeAt_def matchTimeTail_def matchPeriod_def js_def isDigit_def isSpace_def
        trim_def normalizeHours_def toUpperPeriod_def parseInt_def padStart2_def
        toString_def digitsOf.simps split del: if_split)

text \<open>
  Claim C5 (time extraction), as stated: every extracted time is a 24-hour \<open>HH:MM\<close>.
  The pattern takes any one or two digits as the hour and nothing checks its range:
  \<open>"13:00 PM"\<close> gives \<open>"25:00"\<close> by the rule that PM adds 12, and \<open>"99:59pm"\<close> gives
  \<open>"111:59"\<close>, neither of which is a 24-hour time; a fragment \<open>"15 Shift 13:00 PM"\<close>
  is stored with the start time \<open>"25:00"\<close>.
\<close>

theorem extractTimeFromText_hour_not_range_checked:
  "extractTimeFromText (js ''Shift 13:00 PM'') = Some (js ''25:00'', None)
   \<and> \<not> isTime24 (js ''25:00'')
   \<and> extractTimeFromText (js ''99:59pm'') = Some (js ''111:59'', None)
   \<and> \<not> isTime24 (js ''111:59'')
   \<and> parseCalendarFromOCR sampleIds [createOCRResult ''15 Shift 13:00 PM'' 200 250] 2024 2 Standard
     = Inr \<lparr>pcd_year = 2024, pcd_month = 2,
            pcd_events =
              [\<lparr>ev_id = eventId (sampleIds 0) 15 2 2024, ev_title = js ''Shift'',
                ev_date = \<lparr>fullYear = 2024, monthIndex = 1, dayOfMonth = 15\<rparr>,
                ev_startTime = Some (js ''25:00''), ev_endTime = None\<rparr>]\<rparr>"
  by (simp add: parser_eval isTime24_def split del: if_split
        cong: let_weak_cong prod.case_cong_weak)

text \<open>
  Claim C5, amended.  For every title: the start time is the first match of the time
  pattern and the end time the second, if there is one, the matches being found leftmost
  first, each scan going on behind the match before.  A match is one or two digits, a
  colon, two digits, any white space and possibly AM or PM in any letter case, and every
  text of that shape is matched.  Its time is the hour padded to two digits, a colon and
  the minutes, where PM adds 12 to every hour but 12, AM turns 12 into 0 and no period
  leaves the hour; this is a 24-hour \<open>HH:MM\<close> when the hour is 1 to 12 with a period, or
  at most 23 without one, and the minutes are at most 59 (neither is range-checked; the
  matched hour is at most 99).  The stored title is the title with all matches taken
  out, trimmed, and the title itself when nothing matches.  The title
  \<open>"Meeting 9:00 AM 10:30 AM"\<close> gives \<open>"09:00"\<close>, \<open>"10:30"\<close> and \<open>"Meeting"\<close>.
\<close>

theorem extractTimeFromText_start_end_and_title:
  "extractTimeFromText t =
     (case matchAllTimes t of
        [] \<Rightarrow> None
      | m1 # ms \<Rightarrow> Some (formatTime m1, (case ms of [] \<Rightarrow> None | m2 # _ \<Rightarrow> Some (formatTime m2))))
   \<and> ((\<forall>k<n. matchTimeAt (drop k t) = None) \<and> matchTimeAt (drop n t) = Some (h, mm, p, rest)
        \<longrightarrow> matchAllTimes t = (h, mm, p) # matchAllTimes rest
            \<and> removeTimes t = take n t @ removeTimes rest)
   \<and> ((\<forall>k<length u. matchTimeAt (drop k u) = None) \<longrightarrow> matchAllTimes u = [] \<and> removeTimes u = u)
   \<and> ((length h1 = 1 \<or> length h1 = 2) \<and> list_all isDigit h1 \<and> length mm1 = 2
        \<and> list_all isDigit mm1 \<and> list_all isSpace ws \<and> q \<in> set (amTexts @ pmTexts)
        \<longrightarrow> matchTimeAt (h1 @ js '':'' @ mm1 @ ws @ q @ r1) = Some (h1, mm1, Some q, r1))
   \<and> ((length h1 = 1 \<or> length h1 = 2) \<and> list_all isDigit h1 \<and> length mm1 = 2
        \<and> list_all isDigit mm1 \<and> list_all isSpace ws
        \<and> dropWhile isSpace r2 = r2 \<and> take 2 r2 \<notin> set (amTexts @ pmTexts)
        \<longrightarrow> matchTimeAt (h1 @ js '':'' @ mm1 @ ws @ r2) = Some (h1, mm1, None, r2))
   \<and> (matchTimeAt v = Some (h2, mm2, p2, r3) \<longrightarrow>
        (length h2 = 1 \<or> length h2 = 2) \<and> list_all isDigit h2
        \<and> length mm2 = 2 \<and> list_all isDigit mm2
        \<and> (p2 = None \<or> (\<exists>q'. p2 = Some q' \<and> q' \<in> set (amTexts @ pmTexts)))
        \<and> (\<exists>ws'. list_all isSpace ws' \<and> v = h2 @ js '':'' @ mm2 @ ws' @ periodText p2 @ r3))
   \<and> (q1 \<in> set pmTexts \<longrightarrow>
        formatTime (h3, mm3, Some q1) =
          padStart2 (toString (if parseInt h3 = 12 then 12 else parseInt h3 + 12)) @ js '':'' @ mm3)
   \<and> (q2 \<in> set amTexts \<longrightarrow>
        formatTime (h3, mm3, Some q2) =
          padStart2 (toString (if parseInt h3 = 12 then 0 else parseInt h3)) @ js '':'' @ mm3)
   \<and> formatTime (h3, mm3, None) = padStart2 (toString (parseInt h3)) @ js '':'' @ mm3
   \<and> ((length h4 = 1 \<or> length h4 = 2) \<and> list_all isDigit h4 \<and> length mm4 = 2
        \<and> list_all isDigit mm4 \<and> parseInt mm4 \<le> 59
        \<and> (case p4 of None \<Rightarrow> parseInt h4 \<le> 23
                     | Some q4 \<Rightarrow> q4 \<in> set (amTexts @ pmTexts) \<and> 1 \<le> parseInt h4 \<and> parseInt h4 \<le> 12)
        \<longrightarrow> isTime24 (formatTime (h4, mm4, p4)))
   \<and> ((length h5 = 1 \<or> length h5 = 2) \<and> list_all isDigit h5 \<longrightarrow>
        0 \<le> parseInt h5 \<and> parseInt h5 \<le> 99)
   \<and> (0 \<le> m \<and> m < 100 \<longrightarrow>
        padStart2 (toString m) = [48 + nat m div 10, 48 + nat m mod 10])
   \<and> ev_title (buildEvent i t d mo yr) =
       (if matchAllTimes t = [] then t else trim (removeTimes t))
   \<and> ev_startTime (buildEvent i t d mo yr) = map_option fst (extractTimeFromText t)
   \<and> ev_endTime (buildEvent i t d mo yr) =
       (case extractTimeFromText t of None \<Rightarrow> None | Some (s, e) \<Rightarrow> e)
   \<and> extractTimeFromText (js ''Meeting 9:00 AM 10:30 AM'') = Some (js ''09:00'', Some (js ''10:30''))
   \<and> ev_title (buildEvent i (js ''Meeting 9:00 AM 10:30 AM'') d mo yr) = js ''Meeting''
   \<and> buildEvent i (js ''Lunch 12:30 pm with Bob 1:15 PM today'') d mo yr
     = \<lparr>ev_id = eventId i d mo yr, ev_title = js ''Lunch  with Bob  today'',
        ev_date = newDate yr (mo - 1) d,
        ev_startTime = Some (js ''12:30''), ev_endTime = Some (js ''13:15'')\<rparr>
   \<and> ((h6, mm6, p6) \<in> set (matchAllTimes t) \<longrightarrow>
        (length h6 = 1 \<or> length h6 = 2) \<and> list_all isDigit h6
        \<and> length mm6 = 2 \<and> list_all isDigit mm6
        \<and> (p6 = None \<or> (\<exists>q'. p6 = Some q' \<and> q' \<in> set (amTexts @ pmTexts))))"
proof (intro conjI impI)
  show "extractTimeFromText t =
     (case matchAllTimes t of
        [] \<Rightarrow> None
      | m1 # ms \<Rightarrow> Some (formatTime m1, (case ms of [] \<Rightarrow> None | m2 # _ \<Rightarrow> Some (formatTime m2))))"
    by (rule extractTimeFromText_matches)
next
  assume a: "(\<forall>k<n. matchTimeAt (drop k t) = None) \<and> matchTimeAt (drop n t) = Some (h, mm, p, rest)"
  then have "matchAllTimes t = (h, mm, p) # matchAllTimes rest
       \<and> removeTimes t = take n t @ removeTimes rest"
    by (intro matchAllTimes_leftmost) blast+
  then show "matchAllTimes t = (h, mm, p) # matchAllTimes rest"
    "removeTimes t = take n t @ removeTimes rest" by blast+
next
  assume "\<forall>k<length u. matchTimeAt (drop k u) = None"
  from matchAllTimes_no_match[OF this] show "matchAllTimes u = []" "removeTimes u = u" by blast+
next
  assume "(length h1 = 1 \<or> length h1 = 2) \<and> list_all isDigit h1 \<and> length mm1 = 2
        \<and> list_all isDigit mm1 \<and> list_all isSpace ws \<and> q \<in> set (amTexts @ pmTexts)"
  then show "matchTimeAt (h1 @ js '':'' @ mm1 @ ws @ q @ r1) = Some (h1, mm1, Some q, r1)"
    by (intro matchTimeAt_with_period) blast+
next
  assume "(length h1 = 1 \<or> length h1 = 2) \<and> list_all isDigit h1 \<and> length mm1 = 2
        \<and> list_all isDigit mm1 \<and> list_all isSpace ws
        \<and> dropWhile isSpace r2 = r2 \<and> take 2 r2 \<notin> set (amTexts @ pmTexts)"
  then show "matchTimeAt (h1 @ js '':'' @ mm1 @ ws @ r2) = Some (h1, mm1, None, r2)"
    by (intro matchTimeAt_without_period) blast+
next
  assume "matchTimeAt v = Some (h2, mm2, p2, r3)"
  from matchTimeAt_text[OF this]
  show "length h2 = 1 \<or> length h2 = 2" "list_all isDigit h2" "length mm2 = 2"
    "list_all isDigit mm2" "p2 = None \<or> (\<exists>q'. p2 = Some q' \<and> q' \<in> set (amTexts @ pmTexts))"
    "\<exists>ws'. list_all isSpace ws' \<and> v = h2 @ js '':'' @ mm2 @ ws' @ periodText p2 @ r3"
    by blast+
next
  assume "q1 \<in> set pmTexts"
  then obtain a b where "q1 = [a, b]" "(a = 80 \<or> a = 112) \<and> (b = 77 \<or> b = 109)"
    by (auto simp: pm_set)
  then show "formatTime (h3, mm3, Some q1) =
          padStart2 (toString (if parseInt h3 = 12 then 12 else parseInt h3 + 12)) @ js '':'' @ mm3"
    using formatTime_pm[of a b h3 mm3] by simp
next
  assume "q2 \<in> set amTexts"
  then obtain a b where "q2 = [a, b]" "(a = 65 \<or> a = 97) \<and> (b = 77 \<or> b = 109)"
    by (auto simp: am_set)
  then show "formatTime (h3, mm3, Some q2) =
          padStart2 (toString (if parseInt h3 = 12 then 0 else parseInt h3)) @ js '':'' @ mm3"
    using formatTime_am[of a b h3 mm3] by simp
next
  show "formatTime (h3, mm3, None) = padStart2 (toString (parseInt h3)) @ js '':'' @ mm3"
    by (rule formatTime_plain)
next
  assume "(length h4 = 1 \<or> length h4 = 2) \<and> list_all isDigit h4 \<and> length mm4 = 2
        \<and> list_all isDigit mm4 \<and> parseInt mm4 \<le> 59
        \<and> (case p4 of None \<Rightarrow> parseInt h4 \<le> 23
                     | Some q4 \<Rightarrow> q4 \<in> set (amTexts @ pmTexts) \<and> 1 \<le> parseInt h4 \<and> parseInt h4 \<le> 12)"
  then show "isTime24 (formatTime (h4, mm4, p4))"
    by (intro isTime24_formatTime) blast+
next
  assume "(length h5 = 1 \<or> length h5 = 2) \<and> list_all isDigit h5"
  then show "0 \<le> parseInt h5" "parseInt h5 \<le> 99"
    using parseInt_two_digits[of h5] by blast+
next
  assume "0 \<le> m \<and> m < 100"
  then show "padStart2 (toString m) = [48 + nat m div 10, 48 + nat m mod 10]"
    using padStart2_toString_two_digits[of m] by blast
next
  show "ev_title (buildEvent i t d mo yr) =
       (if matchAllTimes t = [] then t else trim (removeTimes t))"
    by (rule buildEvent_title)
next
  show "ev_startTime (buildEvent i t d mo yr) = map_option fst (extractTimeFromText t)"
    "ev_endTime (buildEvent i t d mo yr) =
       (case extractTimeFromText t of None \<Rightarrow> None | Some (s, e) \<Rightarrow> e)"
    using buildEvent_times by blast+
next
  show "extractTimeFromText (js ''Meeting 9:00 AM 10:30 AM'') = Some (js ''09:00'', Some (js ''10:30''))"
    by (rule meeting_times)
next
  show "ev_title (buildEvent i (js ''Meeting 9:00 AM 10:30 AM'') d mo yr) = js ''Meeting''"
    by (simp add: buildEvent_title meeting_matches meeting_title)
next
  show "buildEvent i (js ''Lunch 12:30 pm with Bob 1:15 PM today'') d mo yr
     = \<lparr>ev_id = eventId i d mo yr, ev_title = js ''Lunch  with Bob  today'',
        ev_date = newDate yr (mo - 1) d,
        ev_startTime = Some (js ''12:30''), ev_endTime = Some (js ''13:15'')\<rparr>"
    by (rule lunch_event)
next
  assume "(h6, mm6, p6) \<in> set (matchAllTimes t)"
  from matchAllTimes_shape[OF this]
  show "length h6 = 1 \<or> length h6 = 2" "list_all isDigit h6" "length mm6 = 2"
    "list_all isDigit mm6"
    "p6 = None \<or> (\<exists>q'. p6 = Some q' \<and> q' \<in> set (amTexts @ pmTexts))"
    by (auto simp: am_set pm_set)
qed

theorem extractTimeFromText_start_end_and_title_witness:
  "matchAllTimes (js ''At 9:00 AM 10:30'') = (js ''9'', js ''00'', Some (js ''AM'')) # matchAllTimes (js '' 10:30'')
   \<and> removeTimes (js ''At 9:00 AM 10:30'') = js ''At '' @ removeTimes (js '' 10:30'')
   \<and> matchAllTimes (js ''Meeting'') = [] \<and> removeTimes (js ''Meeting'') = js ''Meeting''
   \<and> matchTimeAt (js ''10:30 pm today'') = Some (js ''10'', js ''30'', Some (js ''pm''), js '' today'')
   \<and> matchTimeAt (js ''10:30 -11'') = Some (js ''10'', js ''30'', None, js ''-11'')
   \<and> list_all isDigit (js ''2'') \<and> js ''PM'' \<in> set (amTexts @ pmTexts)
   \<and> formatTime (js ''12'', js ''15'', Some (js ''pM'')) = js ''12:15''
   \<and> formatTime (js ''12'', js ''15'', Some (js ''am'')) = js ''00:15''
   \<and> isTime24 (formatTime (js ''11'', js ''59'', Some (js ''Pm'')))
   \<and> parseInt (js ''99'') \<le> 99
   \<and> padStart2 (toString 9) = js ''09''
   \<and> length (js ''00'') = 2"
proof -
  note inst = extractTimeFromText_start_end_and_title
      [where t = "js ''At 9:00 AM 10:30''" and n = 3 and h = "js ''9''" and mm = "js ''00''"
         and p = "Some (js ''AM'')" and rest = "js '' 10:30''" and u = "js ''Meeting''"
         and ?h1.0 = "js ''10''" and ?mm1.0 = "js ''30''" and ws = "js '' ''" and q = "js ''pm''"
         and ?r1.0 = "js '' today''" and ?r2.0 = "js ''-11''"
         and v = "js ''2:15PM.''" and ?h2.0 = "js ''2''" and ?mm2.0 = "js ''15''"
         and ?p2.0 = "Some (js ''PM'')" and ?r3.0 = "js ''.''"
         and ?q1.0 = "js ''pM''" and ?q2.0 = "js ''am''" and ?h3.0 = "js ''12''" and ?mm3.0 = "js ''15''"
         and ?h4.0 = "js ''11''" and ?mm4.0 = "js ''59''" and ?p4.0 = "Some (js ''Pm'')"
         and ?h5.0 = "js ''99''" and m = 9
         and ?h6.0 = "js ''9''" and ?mm6.0 = "js ''00''" and ?p6.0 = "Some (js ''AM'')"]
  note r1 = inst[THEN conjunct2]
  note r2 = r1[THEN conjunct2]
  note r3 = r2[THEN conjunct2]
  note r4 = r3[THEN conjunct2]
  note r5 = r4[THEN conjunct2]
  note r6 = r5[THEN conjunct2]
  note r7 = r6[THEN conjunct2]
  note r8 = r7[THEN conjunct2]
  note r9 = r8[THEN conjunct2]
  note r10 = r9[THEN conjunct2]
  note r11 = r10[THEN conjunct2]
  note r12 = r11[THEN conjunct2]
  note r13 = r12[THEN conjunct2]
  note r14 = r13[THEN conjunct2]
  note r15 = r14[THEN conjunct2]
  note r16 = r15[THEN conjunct2]
  note r17 = r16[THEN conjunct2]
  note r18 = r17[THEN conjunct2]
  have before: "\<forall>k<3. matchTimeAt (drop k (js ''At 9:00 AM 10:30'')) = None"
  proof (intro allI impI)
    fix k :: nat
    assume "k < 3"
    then consider "k = 0" | "k = 1" | "k = 2" by linarith
    then show "matchTimeAt (drop k (js ''At 9:00 AM 10:30'')) = None"
      by cases (simp_all add: js_def matchTimeAt_def isDigit_def)
  qed
  have at: "matchTimeAt (drop 3 (js ''At 9:00 AM 10:30''))
              = Some (js ''9'', js ''00'', Some (js ''AM''), js '' 10:30'')"
    by (simp add: js_def matchTimeAt_def matchTimeTail_def matchPeriod_def isDigit_def
          isSpace_def split del: if_split)
  note left = r1[THEN conjunct1, THEN mp, OF conjI[OF before at]]
  have tk: "take 3 (js ''At 9:00 AM 10:30'') = js ''At ''" by (simp add: js_def)
  note c1 = left[THEN conjunct1]
  from left[THEN conjunct2] tk
  have c2: "removeTimes (js ''At 9:00 AM 10:30'') = js ''At '' @ removeTimes (js '' 10:30'')"
    by (simp only:)
  have nomatch: "\<forall>k<length (js ''Meeting''). matchTimeAt (drop k (js ''Meeting'')) = None"
  proof (intro allI impI)
    fix k :: nat
    assume "k < length (js ''Meeting'')"
    then have "k < 7" by (simp add: js_def)
    then consider "k = 0" | "k = 1" | "k = 2" | "k = 3" | "k = 4" | "k = 5" | "k = 6" by linarith
    then show "matchTimeAt (drop k (js ''Meeting'')) = None"
      by cases (simp_all add: js_def matchTimeAt_def isDigit_def)
  qed
  note c3 = r2[THEN conjunct1, THEN mp, OF nomatch]
  have h4: "(length (js ''10'') = 1 \<or> length (js ''10'') = 2) \<and> list_all isDigit (js ''10'')
        \<and> length (js ''30'') = 2 \<and> list_all isDigit (js ''30'') \<and> list_all isSpace (js '' '')
        \<and> js ''pm'' \<in> set (amTexts @ pmTexts)"
    by (simp add: js_def isDigit_def isSpace_def amTexts_def pmTexts_def)
  have t4: "js ''10'' @ js '':'' @ js ''30'' @ js '' '' @ js ''pm'' @ js '' today''
              = js ''10:30 pm today''" by (simp add: js_def)
  from r3[THEN conjunct1, THEN mp, OF h4]
  have c4: "matchTimeAt (js ''10:30 pm today'')
          = Some (js ''10'', js ''30'', Some (js ''pm''), js '' today'')" by (simp only: t4)
  have h5: "(length (js ''10'') = 1 \<or> length (js ''10'') = 2) \<and> list_all isDigit (js ''10'')
        \<and> length (js ''30'') = 2 \<and> list_all isDigit (js ''30'') \<and> list_all isSpace (js '' '')
        \<and> dropWhile isSpace (js ''-11'') = js ''-11''
        \<and> take 2 (js ''-11'') \<notin> set (amTexts @ pmTexts)"
    by (simp add: js_def isDigit_def isSpace_def amTexts_def pmTexts_def)
  have t5: "js ''10'' @ js '':'' @ js ''30'' @ js '' '' @ js ''-11'' = js ''10:30 -11''"
    by (simp add: js_def)
  from r4[THEN conjunct1, THEN mp, OF h5]
  have c5: "matchTimeAt (js ''10:30 -11'') = Some (js ''10'', js ''30'', None, js ''-11'')"
    by (simp only: t5)
  have mt: "matchTimeAt (js ''2:15PM.'') = Some (js ''2'', js ''15'', Some (js ''PM''), js ''.'')"
    by (simp add: js_def matchTimeAt_def matchTimeTail_def matchPeriod_def isDigit_def
          isSpace_def split del: if_split)
  note shape = r5[THEN conjunct1, THEN mp, OF mt]
  note c6 = shape[THEN conjunct2, THEN conjunct1]
  from shape[THEN conjunct2, THEN conjunct2, THEN conjunct2, THEN conjunct2, THEN conjunct1]
  have c6': "js ''PM'' \<in> set (amTexts @ pmTexts)" by blast
  have q1: "js ''pM'' \<in> set pmTexts" and q2: "js ''am'' \<in> set amTexts"
    by (simp_all add: amTexts_def pmTexts_def)
  have e1: "padStart2 (toString (if parseInt (js ''12'') = 12 then 12 else parseInt (js ''12'') + 12))
              @ js '':'' @ js ''15'' = js ''12:15''"
    by (simp add: js_def parseInt_def padStart2_def toString_def digitsOf.simps
          split del: if_split)
  have e2: "padStart2 (toString (if parseInt (js ''12'') = 12 then 0 else parseInt (js ''12'')))
              @ js '':'' @ js ''15'' = js ''00:15''"
    by (simp add: js_def parseInt_def padStart2_def toString_def digitsOf.simps
          split del: if_split)
  from r6[THEN conjunct1, THEN mp, OF q1]
  have c7: "formatTime (js ''12'', js ''15'', Some (js ''pM'')) = js ''12:15''"
    by (simp only: e1)
  from r7[THEN conjunct1, THEN mp, OF q2]
  have c8: "formatTime (js ''12'', js ''15'', Some (js ''am'')) = js ''00:15''"
    by (simp only: e2)
  have h10: "(length (js ''11'') = 1 \<or> length (js ''11'') = 2) \<and> list_all isDigit (js ''11'')
        \<and> length (js ''59'') = 2 \<and> list_all isDigit (js ''59'') \<and> parseInt (js ''59'') \<le> 59
        \<and> (case Some (js ''Pm'') of None \<Rightarrow> parseInt (js ''11'') \<le> 23
             | Some q4 \<Rightarrow> q4 \<in> set (amTexts @ pmTexts) \<and> 1 \<le> parseInt (js ''11'')
                          \<and> parseInt (js ''11'') \<le> 12)"
    by (simp add: js_def isDigit_def parseInt_def amTexts_def pmTexts_def)
  note c9 = r9[THEN conjunct1, THEN mp, OF h10]
  have h11: "(length (js ''99'') = 1 \<or> length (js ''99'') = 2) \<and> list_all isDigit (js ''99'')"
    by (simp add: js_def isDigit_def)
  note c10 = r10[THEN conjunct1, THEN mp, OF h11, THEN conjunct2]
  have h12: "(0::int) \<le> 9 \<and> (9::int) < 100" by simp
  from r11[THEN conjunct1, THEN mp, OF h12]
  have c11: "padStart2 (toString 9) = js ''09''" by (simp add: js_def)
  have mem: "(js ''9'', js ''00'', Some (js ''AM''))
               \<in> set (matchAllTimes (js ''At 9:00 AM 10:30''))"
    unfolding c1 by simp
  note c12 = r18[THEN mp, OF mem, THEN conjunct2, THEN conjunct2, THEN conjunct1]
  show ?thesis
    by (intro conjI c1 c2 c3[THEN conjunct1] c3[THEN conjunct2] c4 c5 c6 c6' c7 c8 c9 c10 c11
          c12)
qed

text \<open>The identifiers do not influence the loop: states that agree up to identifiers
  stay so.\<close>

lemma buildEvent_core:
  "eventCore (buildEvent i1 t d mo yr) = eventCore (buildEvent i2 t d mo yr)"
  by (simp add: buildEvent_def split: option.splits)

lemma isDuplicate_core:
  assumes "map eventCore ev1 = map eventCore ev2"
  shows "isDuplicate ev1 d mo yr t = isDuplicate ev2 d mo yr t"
proof -
  have "isDuplicate ev d mo yr t
        = list_ex (\<lambda>c. dayOfMonth (fst c) = d \<and> monthIndex (fst c) = mo - 1 \<and>
                        fullYear (fst c) = yr \<and> fst (snd c) = t) (map eventCore ev)" for ev
    by (simp add: isDuplicate_def list_ex_iff)
  with assms show ?thesis by simp
qed

lemma addEvent_core:
  assumes "map eventCore ev1 = map eventCore ev2"
  shows "map eventCore (addEvent i1 t d ym ev1) = map eventCore (addEvent i2 t d ym ev2)"
  using assms isDuplicate_core[OF assms, of d "snd ym" "fst ym" t]
        buildEvent_core[of i1 t d "snd ym" "fst ym" i2]
  by (simp add: addEvent_def)

lemma processResult_core:
  assumes "map eventCore ev1 = map eventCore ev2"
  shows "fst (processResult ids1 yr mo ct dim dw i r nx (st, ev1))
           = fst (processResult ids2 yr mo ct dim dw i r nx (st, ev2))
       \<and> map eventCore (snd (processResult ids1 yr mo ct dim dw i r nx (st, ev1)))
           = map eventCore (snd (processResult ids2 yr mo ct dim dw i r nx (st, ev2)))"
  using assms
  by (auto simp: processResult.simps addEvent_core split: option.splits prod.splits)

lemma parseLoop_core:
  assumes "map eventCore ev1 = map eventCore ev2"
  shows "fst (parseLoop ids1 yr mo ct dim dw i rs (st, ev1))
           = fst (parseLoop ids2 yr mo ct dim dw i rs (st, ev2))
       \<and> map eventCore (snd (parseLoop ids1 yr mo ct dim dw i rs (st, ev1)))
           = map eventCore (snd (parseLoop ids2 yr mo ct dim dw i rs (st, ev2)))"
  using assms
proof (induction rs arbitrary: i st ev1 ev2)
  case Nil
  then show ?case by simp
next
  case (Cons r rs)
  let ?nx = "case rs of [] \<Rightarrow> None | nextResult # _ \<Rightarrow> Some nextResult"
  obtain s1 e1 where p1: "processResult ids1 yr mo ct dim dw i r ?nx (st, ev1) = (s1, e1)"
    by (cases "processResult ids1 yr mo ct dim dw i r ?nx (st, ev1)") auto
  obtain s2 e2 where p2: "processResult ids2 yr mo ct dim dw i r ?nx (st, ev2) = (s2, e2)"
    by (cases "processResult ids2 yr mo ct dim dw i r ?nx (st, ev2)") auto
  from processResult_core[OF Cons.prems, of ids1 yr mo ct dim dw i r ?nx st ids2] p1 p2
  have eq: "s1 = s2" "map eventCore e1 = map eventCore e2" by simp_all
  from Cons.IH[OF eq(2), of "i + 1" s1] p1 p2 eq(1)
  show ?case by simp
qed

text \<open>
  Claim C8 (idempotence): two runs on the same fragments, year, month and mode differ at
  most in the identifiers.  The identifier source is the only thing that changes between
  runs, and neither the tracker nor the duplicate check reads an identifier.
\<close>

theorem parseCalendarFromOCR_runs_agree:
  "\<exists>d1 d2. parseCalendarFromOCR ids1 ocrResults yr mo calendarType = Inr d1
         \<and> parseCalendarFromOCR ids2 ocrResults yr mo calendarType = Inr d2
         \<and> pcd_year d1 = pcd_year d2 \<and> pcd_month d1 = pcd_month d2
         \<and> map (\<lambda>e. (ev_date e, ev_title e, ev_startTime e, ev_endTime e)) (pcd_events d1)
           = map (\<lambda>e. (ev_date e, ev_title e, ev_startTime e, ev_endTime e)) (pcd_events d2)"
  using parseLoop_core[of "[]" "[]" ids1 yr mo calendarType "dayOfMonth (newDate yr mo 0)"
          "assignWeekIndices (sortResults ocrResults)" 0 "sortResults ocrResults"
          initialMonthState ids2]
  by (simp add: parseCalendarFromOCR_def parseEvents_def)

text \<open>
  In shift-tracking mode the next fragment plays no part in the title, and a C or a moon
  in the fragment's text gives \<open>"nightshift"\<close> whatever the fragment's own title is.
\<close>

lemma resolveTitle_jojo:
  "resolveTitle Jojo result nx pre post =
     (if hasC (ocr_text result) \<or> hasMoon (ocr_text result) then js ''nightshift''
      else if ownTitle pre post \<noteq> [] then ownTitle pre post else js ''dayshift'')"
  by (simp add: resolveTitle_def shiftTitle_def standardTitle_def)

text \<open>
  Claim C4 (shift-tracking titles): without a C or a moon the title is \<open>"dayshift"\<close>
  whatever else the fragment says.  The comment on the branch reads
  \<^verbatim>\<open>All red regions become shift events\<close>, and the branch for the night label does
  replace any title found in the text: \<open>"16 C Work"\<close> is titled \<open>"nightshift"\<close>.  The
  branch for the day label is written \<^verbatim>\<open>eventTitle = eventTitle || 'dayshift'\<close> and
  keeps a title found in the fragment's own text: \<open>"15 Work"\<close>, with no C and no moon, is
  titled \<open>"Work"\<close>, and \<open>"15 9:00"\<close> is stored with the empty title that is left when
  its time is taken out.
\<close>

theorem parseCalendarFromOCR_jojo_keeps_own_title:
  "parseCalendarFromOCR sampleIds [createOCRResult ''15 Work'' 200 250] 2024 2 Jojo
   = Inr \<lparr>pcd_year = 2024, pcd_month = 2,
          pcd_events =
            [\<lparr>ev_id = eventId (sampleIds 0) 15 2 2024, ev_title = js ''Work'',
              ev_date = \<lparr>fullYear = 2024, monthIndex = 1, dayOfMonth = 15\<rparr>,
              ev_startTime = None, ev_endTime = None\<rparr>]\<rparr>
   \<and> \<not> hasC (js ''15 Work'') \<and> \<not> hasMoon (js ''15 Work'')
   \<and> parseCalendarFromOCR sampleIds [createOCRResult ''16 C Work'' 200 250] 2024 2 Jojo
   = Inr \<lparr>pcd_year = 2024, pcd_month = 2,
          pcd_events =
            [\<lparr>ev_id = eventId (sampleIds 0) 16 2 2024, ev_title = js ''nightshift'',
              ev_date = \<lparr>fullYear = 2024, monthIndex = 1, dayOfMonth = 16\<rparr>,
              ev_startTime = None, ev_endTime = None\<rparr>]\<rparr>
   \<and> parseCalendarFromOCR sampleIds [createOCRResult ''15 9:00'' 200 250] 2024 2 Jojo
   = Inr \<lparr>pcd_year = 2024, pcd_month = 2,
          pcd_events =
            [\<lparr>ev_id = eventId (sampleIds 0) 15 2 2024, ev_title = [],
              ev_date = \<lparr>fullYear = 2024, monthIndex = 1, dayOfMonth = 15\<rparr>,
              ev_startTime = Some (js ''09:00''), ev_endTime = None\<rparr>]\<rparr>
   \<and> \<not> hasC (js ''15 9:00'') \<and> \<not> hasMoon (js ''15 9:00'')"
  by (simp add: parser_eval split del: if_split cong: let_weak_cong prod.case_cong_weak)

text \<open>
  Claim C9 (canonical ordering), as stated: after sorting, a pair more than 50 apart in
  Y has the smaller Y first and a pair within 50 has its X ascending.  With three
  fragments stepping down and to the left by 30 pixels in Y each, the first and the last
  are on different rows while each is on the row of the middle one: the three demands go
  round in a circle, so no order of the three meets them, and the sorted list does not.
\<close>

theorem sortResults_chained_rows_unordered:
  "sortResults [createOCRResult ''5 Gym'' 100 0, createOCRResult ''6 Run'' 50 30,
                createOCRResult ''7 Swim'' 0 60]
   = [createOCRResult ''7 Swim'' 0 60, createOCRResult ''6 Run'' 50 30,
      createOCRResult ''5 Gym'' 100 0]
   \<and> \<not> sorted_wrt claimedBefore
         (sortResults [createOCRResult ''5 Gym'' 100 0, createOCRResult ''6 Run'' 50 30,
                       createOCRResult ''7 Swim'' 0 60])
   \<and> \<not> sorted_wrt claimedBefore
         [createOCRResult ''5 Gym'' 100 0, createOCRResult ''6 Run'' 50 30,
          createOCRResult ''7 Swim'' 0 60]
   \<and> \<not> sorted_wrt claimedBefore
         [createOCRResult ''5 Gym'' 100 0, createOCRResult ''7 Swim'' 0 60,
          createOCRResult ''6 Run'' 50 30]
   \<and> \<not> sorted_wrt claimedBefore
         [createOCRResult ''6 Run'' 50 30, createOCRResult ''5 Gym'' 100 0,
          createOCRResult ''7 Swim'' 0 60]
   \<and> \<not> sorted_wrt claimedBefore
         [createOCRResult ''6 Run'' 50 30, createOCRResult ''7 Swim'' 0 60,
          createOCRResult ''5 Gym'' 100 0]
   \<and> \<not> sorted_wrt claimedBefore
         [createOCRResult ''7 Swim'' 0 60, createOCRResult ''5 Gym'' 100 0,
          createOCRResult ''6 Run'' 50 30]
   \<and> \<not> sorted_wrt claimedBefore
         [createOCRResult ''7 Swim'' 0 60, createOCRResult ''6 Run'' 50 30,
          createOCRResult ''5 Gym'' 100 0]"
  by (simp add: sortResults_def jsSort_def compareResults_def claimedBefore_def
        createOCRResult_def)

text \<open>On separated rows the comparator is a transitive order, and insertion keeps a
  list sorted.\<close>

lemma set_insertBy: "set (insertBy cmp a xs) = insert a (set xs)"
  by (induction xs) auto

lemma compareResults_le: "(compareResults a b \<le> 0) = rowThenColumn a b"
  by (auto simp: compareResults_def rowThenColumn_def Let_def)

lemma compareResults_not_less: "\<not> compareResults a b < 0 \<Longrightarrow> rowThenColumn b a"
  by (auto simp: compareResults_def rowThenColumn_def Let_def split: if_splits)

lemma compareResults_less: "compareResults a b < 0 \<Longrightarrow> rowThenColumn a b"
  by (auto simp: compareResults_def rowThenColumn_def Let_def split: if_splits)

lemma row_column_arith:
  fixes ya yb yc xa xb xc :: int
  assumes ab: "if \<bar>ya - yb\<bar> \<ge> 50 then ya < yb else xa \<le> xb"
    and bc: "if \<bar>yb - yc\<bar> \<ge> 50 then yb < yc else xb \<le> xc"
    and t1: "\<bar>ya - yc\<bar> < 50 \<and> \<bar>yc - yb\<bar> < 50 \<longrightarrow> \<bar>ya - yb\<bar> < 50"
    and t2: "\<bar>yb - ya\<bar> < 50 \<and> \<bar>ya - yc\<bar> < 50 \<longrightarrow> \<bar>yb - yc\<bar> < 50"
    and t3: "\<bar>ya - yb\<bar> < 50 \<and> \<bar>yb - yc\<bar> < 50 \<longrightarrow> \<bar>ya - yc\<bar> < 50"
  shows "if \<bar>ya - yc\<bar> \<ge> 50 then ya < yc else xa \<le> xc"
proof (cases "\<bar>ya - yb\<bar> \<ge> 50")
  case far_ab: True
  with ab have lt_ab: "ya < yb" by simp
  show ?thesis
  proof (cases "\<bar>yb - yc\<bar> \<ge> 50")
    case True
    with bc have "yb < yc" by simp
    with far_ab True lt_ab show ?thesis by (simp split: if_splits)
  next
    case False
    have "\<not> \<bar>ya - yc\<bar> < 50"
    proof
      assume "\<bar>ya - yc\<bar> < 50"
      moreover from False have "\<bar>yc - yb\<bar> < 50" by linarith
      ultimately have "\<bar>ya - yb\<bar> < 50" using t1 by blast
      with far_ab show False by linarith
    qed
    moreover have "ya < yc" using far_ab lt_ab False by linarith
    ultimately show ?thesis by simp
  qed
next
  case near_ab: False
  with ab have le_ab: "xa \<le> xb" by simp
  show ?thesis
  proof (cases "\<bar>yb - yc\<bar> \<ge> 50")
    case True
    with bc have lt_bc: "yb < yc" by simp
    have "\<not> \<bar>ya - yc\<bar> < 50"
    proof
      assume "\<bar>ya - yc\<bar> < 50"
      moreover from near_ab have "\<bar>yb - ya\<bar> < 50" by linarith
      ultimately have "\<bar>yb - yc\<bar> < 50" using t2 by blast
      with True show False by linarith
    qed
    moreover have "ya < yc" using near_ab lt_bc True by linarith
    ultimately show ?thesis by simp
  next
    case False
    with bc have "xb \<le> xc" by simp
    moreover from near_ab False t3 have "\<bar>ya - yc\<bar> < 50" by simp
    ultimately show ?thesis using le_ab by simp
  qed
qed

lemma rowThenColumn_trans:
  assumes "rowThenColumn a b" "rowThenColumn b c"
    and "sameRow a c \<and> sameRow c b \<longrightarrow> sameRow a b"
    and "sameRow b a \<and> sameRow a c \<longrightarrow> sameRow b c"
    and "sameRow a b \<and> sameRow b c \<longrightarrow> sameRow a c"
  shows "rowThenColumn a c"
  using assms unfolding rowThenColumn_def sameRow_def
  by (rule row_column_arith)
lemma rowsSeparated_mono: "rowsSeparated T \<Longrightarrow> S \<subseteq> T \<Longrightarrow> rowsSeparated S"
  unfolding rowsSeparated_def by blast

lemma rowsSeparated_trans:
  assumes sep: "rowsSeparated S" and m: "p \<in> S" "q \<in> S" "r \<in> S"
    and pq: "rowThenColumn p q" and qr: "rowThenColumn q r"
  shows "rowThenColumn p r"
proof -
  from sep m have "sameRow p r \<and> sameRow r q \<longrightarrow> sameRow p q"
    unfolding rowsSeparated_def by blast
  moreover from sep m have "sameRow q p \<and> sameRow p r \<longrightarrow> sameRow q r"
    unfolding rowsSeparated_def by blast
  moreover from sep m have "sameRow p q \<and> sameRow q r \<longrightarrow> sameRow p r"
    unfolding rowsSeparated_def by blast
  ultimately show ?thesis using pq qr by (intro rowThenColumn_trans[of p q r]) 
qed

lemma insertBy_sorted:
  assumes "sorted_wrt rowThenColumn xs" and "rowsSeparated (insert a (set xs))"
  shows "sorted_wrt rowThenColumn (insertBy compareResults a xs)"
  using assms
proof (induction xs)
  case Nil
  then show ?case by simp
next
  case (Cons b bs)
  note sep = Cons.prems(2)
  from Cons.prems(1) have sb: "sorted_wrt rowThenColumn bs"
    and bbs: "\<And>c. c \<in> set bs \<Longrightarrow> rowThenColumn b c" by simp_all
  show ?case
  proof (cases "compareResults a b < 0")
    case True
    then have ab: "rowThenColumn a b" by (rule compareResults_less)
    have "rowThenColumn a c" if c: "c \<in> set bs" for c
      using sep _ _ _ ab bbs[OF c] by (rule rowsSeparated_trans) (use c in simp_all)
    with True ab Cons.prems(1) show ?thesis by simp
  next
    case False
    then have ba: "rowThenColumn b a" by (rule compareResults_not_less)
    have "rowsSeparated (insert a (set bs))"
      using sep by (rule rowsSeparated_mono) auto
    with sb have "sorted_wrt rowThenColumn (insertBy compareResults a bs)"
      by (rule Cons.IH)
    moreover have "rowThenColumn b c" if "c \<in> set (insertBy compareResults a bs)" for c
      using that ba bbs by (auto simp: set_insertBy)
    ultimately show ?thesis using False by simp
  qed
qed

lemma foldl_insertBy_sorted:
  assumes "sorted_wrt rowThenColumn acc" and "rowsSeparated (set acc \<union> set xs)"
  shows "sorted_wrt rowThenColumn (foldl (\<lambda>acc a. insertBy compareResults a acc) acc xs)"
  using assms
proof (induction xs arbitrary: acc)
  case Nil
  then show ?case by simp
next
  case (Cons a xs)
  have "rowsSeparated (insert a (set acc))"
    using Cons.prems(2) by (rule rowsSeparated_mono) auto
  with Cons.prems(1) have s: "sorted_wrt rowThenColumn (insertBy compareResults a acc)"
    by (rule insertBy_sorted)
  have "rowsSeparated (set (insertBy compareResults a acc) \<union> set xs)"
    using Cons.prems(2) by (rule rowsSeparated_mono) (auto simp: set_insertBy)
  with s show ?case by (simp add: Cons.IH)
qed

lemma sortResults_sorted:
  "rowsSeparated (set rs) \<Longrightarrow> sorted_wrt rowThenColumn (sortResults rs)"
  by (simp add: sortResults_def jsSort_def foldl_insertBy_sorted)
lemma mset_insertBy: "mset (insertBy cmp a xs) = add_mset a (mset xs)"
  by (induction xs) auto

lemma mset_foldl_insertBy:
  "mset (foldl (\<lambda>acc a. insertBy cmp a acc) acc xs) = mset acc + mset xs"
  by (induction xs arbitrary: acc) (auto simp: mset_insertBy)

text \<open>
  Claim C9, amended.  When the rows of the fragments are separated (being less than 50
  apart in Y is transitive among them), the sorted list is a rearrangement of the input
  in which every fragment stands before every later one by \<open>rowThenColumn\<close>: Y
  differences of 50 or more have the smaller Y first, smaller differences have X
  ascending (equal X in input order).
\<close>

theorem sortResults_rows_then_columns:
  assumes "rowsSeparated (set ocrResults)"
  shows "sorted_wrt rowThenColumn (sortResults ocrResults)
       \<and> mset (sortResults ocrResults) = mset ocrResults"
  using assms
  by (simp add: sortResults_sorted) (simp add: sortResults_def jsSort_def mset_foldl_insertBy)

theorem sortResults_rows_then_columns_witness:
  "rowsSeparated (set [createOCRResult ''1 Work'' 150 150, createOCRResult ''29 Review'' 250 350,
                       createOCRResult ''31 Task'' 100 150])
   \<and> sortResults [createOCRResult ''1 Work'' 150 150, createOCRResult ''29 Review'' 250 350,
                   createOCRResult ''31 Task'' 100 150]
     = [createOCRResult ''31 Task'' 100 150, createOCRResult ''1 Work'' 150 150,
        createOCRResult ''29 Review'' 250 350]
   \<and> sorted_wrt rowThenColumn
        [createOCRResult ''31 Task'' 100 150, createOCRResult ''1 Work'' 150 150,
         createOCRResult ''29 Review'' 250 350]"
proof -
  let ?rs = "[createOCRResult ''1 Work'' 150 150, createOCRResult ''29 Review'' 250 350,
              createOCRResult ''31 Task'' 100 150]"
  have sep: "rowsSeparated (set ?rs)"
    by (simp add: rowsSeparated_def sameRow_def createOCRResult_def)
  have srt: "sortResults ?rs
     = [createOCRResult ''31 Task'' 100 150, createOCRResult ''1 Work'' 150 150,
        createOCRResult ''29 Review'' 250 350]"
    by (simp add: sortResults_def jsSort_def compareResults_def createOCRResult_def)
  from sortResults_rows_then_columns[OF sep] have "sorted_wrt rowThenColumn (sortResults ?rs)"
    by blast
  with sep srt show ?thesis by simp
qed

end
